theory Spec2Isabelle
  imports Main
begin

section \<open>Strings of the host language\<close>

text \<open>
  A string is a list of code units. Only code units below 256 are represented
  (\<^typ>\<open>char\<close>); this covers every pattern and table of the program.
\<close>

definition TAB :: char where
  "TAB = CHR 0x09"

definition CRLF :: string where
  "CRLF = [CHR 0x0D, CHR 0x0A]"

text \<open>\<open>s.startsWith(p)\<close>\<close>

fun startsWith :: "string \<Rightarrow> string \<Rightarrow> bool" where
  "startsWith s [] = True"
| "startsWith [] (p # ps) = False"
| "startsWith (c # s) (p # ps) = (c = p \<and> startsWith s ps)"

text \<open>\<open>s.endsWith(p)\<close>\<close>

definition endsWith :: "string \<Rightarrow> string \<Rightarrow> bool" where
  "endsWith s p = startsWith (rev s) (rev p)"

text \<open>\<open>s.includes(p)\<close>: \<open>p\<close> occurs in \<open>s\<close> as a contiguous substring.\<close>

fun strIncludes :: "string \<Rightarrow> string \<Rightarrow> bool" where
  "strIncludes [] p = (p = [])"
| "strIncludes (c # s) p = (startsWith (c # s) p \<or> strIncludes s p)"

text \<open>\<open>s.split(c)\<close> for a single separator character; the result is never empty.\<close>

fun splitOn :: "char \<Rightarrow> string \<Rightarrow> string list" where
  "splitOn c [] = [[]]"
| "splitOn c (x # xs) =
     (if x = c then [] # splitOn c xs
      else (case splitOn c xs of w # ws \<Rightarrow> (x # w) # ws | [] \<Rightarrow> [[x]]))"

text \<open>\<open>parts.join(sep)\<close>\<close>

fun joinWith :: "string \<Rightarrow> string list \<Rightarrow> string" where
  "joinWith sep [] = []"
| "joinWith sep [x] = x"
| "joinWith sep (x # y # ys) = x @ sep @ joinWith sep (y # ys)"

text \<open>
  \<open>s.toLowerCase()\<close> on code units below 256: the ASCII capitals and the
  Latin-1 capitals U+00C0..U+00DE (except the multiplication sign U+00D7) move
  up by 32, that is, bit 5 is set.
\<close>

definition lowerChar :: "char \<Rightarrow> char" where
  "lowerChar c =
     (let n = (of_char c :: nat)
      in if (65 \<le> n \<and> n \<le> 90) \<or> (192 \<le> n \<and> n \<le> 222 \<and> n \<noteq> 215)
         then (case c of Char b0 b1 b2 b3 b4 b5 b6 b7 \<Rightarrow> Char b0 b1 b2 b3 b4 True b6 b7)
         else c)"

definition toLowerCase :: "string \<Rightarrow> string" where
  "toLowerCase s = map lowerChar s"

text \<open>
  \<open>s.trim()\<close>: white space and line terminators are removed at both ends. Below
  256 these are U+0009..U+000D, the space and the no-break space U+00A0.
\<close>

definition isWhiteSpace :: "char \<Rightarrow> bool" where
  "isWhiteSpace c =
     (let n = (of_char c :: nat) in (9 \<le> n \<and> n \<le> 13) \<or> n = 32 \<or> n = 160)"

definition trim :: "string \<Rightarrow> string" where
  "trim s = rev (dropWhile isWhiteSpace (rev (dropWhile isWhiteSpace s)))"

text \<open>Decimal rendering of a number in a template string.\<close>

definition digitChar :: "nat \<Rightarrow> char" where
  "digitChar d = ''0123456789'' ! d"

fun showNat :: "nat \<Rightarrow> string" where
  "showNat n =
     (if n < 10 then [digitChar n]
      else showNat (n div 10) @ [digitChar (n mod 10)])"

declare showNat.simps [simp del]

section \<open>The POSIX flavour of the host's \<open>path\<close> module\<close>

text \<open>
  The program calls \<open>path.posix.normalize\<close>, \<open>path.join\<close>, \<open>path.resolve\<close>,
  \<open>path.dirname\<close>, \<open>path.relative\<close> and \<open>path.extname\<close>. They belong to the
  runtime, not to the repository; they are modelled here on path segments, as
  the runtime documents them for POSIX hosts.
\<close>

text \<open>
  One step of \<open>normalizeString\<close>: empty and \<open>.\<close> segments are dropped, \<open>..\<close>
  removes the last kept segment unless there is none or it is itself \<open>..\<close>, in
  which case \<open>..\<close> is kept only when the path may rise above its start.
\<close>

definition normStep :: "bool \<Rightarrow> string list \<Rightarrow> string \<Rightarrow> string list" where
  "normStep allowAboveRoot res seg =
     (if seg = [] \<or> seg = ''.'' then res
      else if seg = ''..'' then
        (if res \<noteq> [] \<and> last res \<noteq> ''..'' then butlast res
         else if allowAboveRoot then res @ [''..''] else res)
      else res @ [seg])"

definition normalizeSegments :: "bool \<Rightarrow> string \<Rightarrow> string list" where
  "normalizeSegments allowAboveRoot p = foldl (normStep allowAboveRoot) [] (splitOn CHR ''/'' p)"

definition normalizeString :: "string \<Rightarrow> bool \<Rightarrow> string" where
  "normalizeString p allowAboveRoot = joinWith ''/'' (normalizeSegments allowAboveRoot p)"

text \<open>\<open>path.posix.normalize(p)\<close>\<close>

definition normalizePath :: "string \<Rightarrow> string" where
  "normalizePath p =
     (if p = [] then ''.''
      else
        let isAbsolute = (hd p = CHR ''/'');
            trailingSeparator = (last p = CHR ''/'');
            q = normalizeString p (\<not> isAbsolute)
        in if q = [] then
             (if isAbsolute then ''/'' else if trailingSeparator then ''./'' else ''.'')
           else
             (if isAbsolute then ''/'' else []) @ q @ (if trailingSeparator then ''/'' else []))"

text \<open>\<open>path.join(a, b)\<close>: the non-empty arguments joined by a slash, then normalized.\<close>

definition pathJoin :: "string \<Rightarrow> string \<Rightarrow> string" where
  "pathJoin a b =
     (let joined = joinWith ''/'' (filter (\<lambda>s. s \<noteq> []) [a, b])
      in if joined = [] then ''.'' else normalizePath joined)"

text \<open>
  \<open>path.resolve(...)\<close>: the arguments are taken from the right, the working
  directory of the process last, until an absolute one has been prepended;
  empty ones are skipped. The result is normalized and has no trailing slash.
\<close>

fun resolveLoop :: "string list \<Rightarrow> string \<Rightarrow> string" where
  "resolveLoop [] acc = acc"
| "resolveLoop (p # ps) acc =
     (if p = [] then resolveLoop ps acc
      else if hd p = CHR ''/'' then p @ ''/'' @ acc
      else resolveLoop ps (p @ ''/'' @ acc))"

definition pathResolve :: "string \<Rightarrow> string list \<Rightarrow> string" where
  "pathResolve cwd args =
     (let r = resolveLoop (rev args @ [cwd]) []
      in if r \<noteq> [] \<and> hd r = CHR ''/''
         then ''/'' @ normalizeString r False
         else (let q = normalizeString r True in if q = [] then ''.'' else q))"

text \<open>The last component of a path, trailing slashes ignored.\<close>

definition stripTrailingSlashes :: "string \<Rightarrow> string" where
  "stripTrailingSlashes p = rev (dropWhile (\<lambda>c. c = CHR ''/'') (rev p))"

definition lastComponent :: "string \<Rightarrow> string" where
  "lastComponent p = last (splitOn CHR ''/'' (stripTrailingSlashes p))"

text \<open>
  \<open>path.extname(p)\<close>: from the last dot of the last component to its end; empty
  when there is no dot, when the last dot is the component's first character,
  or when the component is \<open>..\<close>.
\<close>

definition extname :: "string \<Rightarrow> string" where
  "extname p =
     (let b = lastComponent p;
          afterDot = rev (takeWhile (\<lambda>c. c \<noteq> CHR ''.'') (rev b))
      in if CHR ''.'' \<notin> set b then []
         else if length afterDot + 1 = length b then []
         else if b = ''..'' then []
         else CHR ''.'' # afterDot)"

text \<open>
  \<open>path.dirname(p)\<close>: scanning from the end down to index 1, trailing slashes
  and then the last component are skipped; the path is cut at the slash met
  next. With no such slash the result is \<open>/\<close> or \<open>.\<close>.
\<close>

definition dirname :: "string \<Rightarrow> string" where
  "dirname p =
     (if p = [] then ''.''
      else
        let hasRoot = (hd p = CHR ''/'');
            r1 = dropWhile (\<lambda>c. c = CHR ''/'') (rev (tl p));
            r2 = dropWhile (\<lambda>c. c \<noteq> CHR ''/'') r1
        in if r2 = [] then (if hasRoot then ''/'' else ''.'')
           else if hasRoot \<and> length r2 = 1 then ''//''
           else take (length r2) p)"

text \<open>
  \<open>path.relative(from, to)\<close>: both paths are resolved; the common leading
  segments are dropped, every remaining segment of \<open>from\<close> becomes \<open>..\<close> and the
  remaining segments of \<open>to\<close> follow.
\<close>

definition segments :: "string \<Rightarrow> string list" where
  "segments p = filter (\<lambda>s. s \<noteq> []) (splitOn CHR ''/'' p)"

fun commonPrefixLength :: "string list \<Rightarrow> string list \<Rightarrow> nat" where
  "commonPrefixLength (x # xs) (y # ys) = (if x = y then Suc (commonPrefixLength xs ys) else 0)"
| "commonPrefixLength xs ys = 0"

definition pathRelative :: "string \<Rightarrow> string \<Rightarrow> string \<Rightarrow> string" where
  "pathRelative cwd from to =
     (if from = to then []
      else
        let f = pathResolve cwd [from];
            t = pathResolve cwd [to]
        in if f = t then []
           else
             let fs = segments f;
                 ts = segments t;
                 k = commonPrefixLength fs ts
             in joinWith ''/'' (replicate (length fs - k) ''..'' @ drop k ts))"


section \<open>Types of the program (\<open>types.ts\<close>)\<close>

datatype GopherItemType =
    FILE | DIRECTORY | CSO_PHONE_BOOK | ERROR | BINHEX_FILE | DOS_BINARY
  | UUENCODED_FILE | SEARCH_SERVER | TELNET | BINARY_FILE | MIRROR | GIF_IMAGE
  | IMAGE | TELNET_3270 | HTML | INFO

text \<open>The value of each enumeration member: the tag written on the wire.\<close>

fun typeChar :: "GopherItemType \<Rightarrow> char" where
  "typeChar FILE = CHR ''0''"
| "typeChar DIRECTORY = CHR ''1''"
| "typeChar CSO_PHONE_BOOK = CHR ''2''"
| "typeChar ERROR = CHR ''3''"
| "typeChar BINHEX_FILE = CHR ''4''"
| "typeChar DOS_BINARY = CHR ''5''"
| "typeChar UUENCODED_FILE = CHR ''6''"
| "typeChar SEARCH_SERVER = CHR ''7''"
| "typeChar TELNET = CHR ''8''"
| "typeChar BINARY_FILE = CHR ''9''"
| "typeChar MIRROR = CHR ''+''"
| "typeChar GIF_IMAGE = CHR ''g''"
| "typeChar IMAGE = CHR ''I''"
| "typeChar TELNET_3270 = CHR ''T''"
| "typeChar HTML = CHR ''h''"
| "typeChar INFO = CHR ''i''"

text \<open>
  \<open>GopherItem\<close>. The fields \<open>type\<close>, \<open>selector\<close>, \<open>hostname\<close> and \<open>port\<close> carry
  the prefix \<open>item\<close> here, because \<open>selector\<close> is also a field of the request
  and \<open>hostname\<close> and \<open>port\<close> are fields of the configuration.
\<close>

record GopherItem =
  itemType :: GopherItemType
  displayString :: string
  itemSelector :: string
  itemHostname :: string
  itemPort :: nat

record GopherRequest =
  selector :: string
  searchTerms :: "string option"

text \<open>\<open>string | Buffer\<close>\<close>

datatype Payload = Text string | Buffer string

fun payloadBytes :: "Payload \<Rightarrow> string" where
  "payloadBytes (Text s) = s"
| "payloadBytes (Buffer s) = s"

record GopherResponse =
  data :: Payload
  isDirectory :: bool
  items :: "GopherItem list option"

record ServerConfig =
  port :: nat
  hostname :: string
  documentRoot :: string
  maxRequestSize :: nat
  connectionTimeout :: nat
  enableLogging :: bool
  allowedDataDirectory :: string

record SecurityOptions =
  maxFileSize :: nat
  rateLimitRequests :: int
  rateLimitWindow :: int

text \<open>The codes with which the program constructs a \<open>GopherError\<close>.\<close>

datatype ErrorCode =
    REQUEST_TOO_LARGE | REQUEST_FORBIDDEN | SECURITY_ERROR | PATH_TRAVERSAL
  | SUSPICIOUS_PATH | PATH_NOT_ALLOWED | RATE_LIMIT_EXCEEDED | SELECTOR_TOO_LONG
  | INVALID_SELECTOR | FILE_TOO_LARGE | FILE_TYPE_FORBIDDEN | FILE_NOT_FOUND
  | PERMISSION_DENIED | FILESYSTEM_ERROR | READ_ERROR | DIRECTORY_ERROR

datatype GopherError = GopherError (message: string) (code: ErrorCode) (statusCode: nat)

section \<open>The host: working directory, file system, collation\<close>

datatype FsErrno = ENOENT | EACCES | EOTHER

record Stats =
  statIsDirectory :: bool
  statSize :: nat

record Dirent =
  name :: string
  direntIsDirectory :: bool

text \<open>
  What the program asks of its host: the working directory, \<open>fs.stat\<close>,
  \<open>fs.readdir\<close> (with file types), \<open>fs.readFile\<close> and the collation behind
  \<open>String.prototype.localeCompare\<close>, whose sign orders two strings.
\<close>

record Host =
  cwd :: string
  fsStat :: "string \<Rightarrow> FsErrno + Stats"
  fsReaddir :: "string \<Rightarrow> Dirent list option"
  fsReadFile :: "string \<Rightarrow> string option"
  localeCompare :: "string \<Rightarrow> string \<Rightarrow> int"

text \<open>
  \<open>Array.prototype.sort\<close> with a comparison function: the sort is stable, an
  element stays ahead of the later elements it does not compare above.
\<close>

fun insertBy :: "('a \<Rightarrow> 'a \<Rightarrow> int) \<Rightarrow> 'a \<Rightarrow> 'a list \<Rightarrow> 'a list" where
  "insertBy cmp x [] = [x]"
| "insertBy cmp x (y # ys) = (if cmp x y \<le> 0 then x # y # ys else y # insertBy cmp x ys)"

definition sortBy :: "('a \<Rightarrow> 'a \<Rightarrow> int) \<Rightarrow> 'a list \<Rightarrow> 'a list" where
  "sortBy cmp xs = foldr (insertBy cmp) xs []"

section \<open>\<open>SecurityManager\<close> (\<open>security.ts\<close>)\<close>

text \<open>
  \<open>security.ts\<close> holds two copies of the class. The copy modelled is the
  first, whose constructor takes the allowed data directory. The second copy
  has the same \<open>checkRateLimit\<close>, the same character class and the same
  file-type table; it adds a switch for the traversal check and a list of
  reserved system paths, and it has no \<open>validateAllowedPath\<close>.
\<close>

record RateEntry =
  count :: int
  resetTime :: int

type_synonym RateLimitMap = "string \<Rightarrow> RateEntry option"

text \<open>
  The manager's fields. The constructor resolves the allowed directory and
  lays the caller's options over the defaults.
\<close>

record SecurityManager =
  rateLimitMap :: RateLimitMap
  options :: SecurityOptions
  managerAllowedDataDirectory :: string

definition defaultSecurityOptions :: SecurityOptions where
  "defaultSecurityOptions =
     \<lparr>maxFileSize = 10 * 1024 * 1024, rateLimitRequests = 100, rateLimitWindow = 60 * 1000\<rparr>"

definition newSecurityManager :: "Host \<Rightarrow> string \<Rightarrow> SecurityOptions \<Rightarrow> SecurityManager" where
  "newSecurityManager host dir opts =
     \<lparr>rateLimitMap = Map.empty, options = opts,
      managerAllowedDataDirectory = pathResolve (cwd host) [dir]\<rparr>"

text \<open>
  The seven patterns of \<open>validatePathTraversal\<close>, tested in order: \<open>..\<close>,
  \<open>/./\<close>, \<open>\.\\<close>, then without regard to case \<open>%2e%2e\<close>, \<open>%2f\<close>, \<open>%5c\<close>, and
  the NUL character.
\<close>

definition suspiciousPatterns :: "(string \<Rightarrow> bool) list" where
  "suspiciousPatterns =
     [\<lambda>s. strIncludes s ''..'',
      \<lambda>s. strIncludes s ''/./'',
      \<lambda>s. strIncludes s [CHR 0x5C, CHR ''.'', CHR 0x5C],
      \<lambda>s. strIncludes (toLowerCase s) ''%2e%2e'',
      \<lambda>s. strIncludes (toLowerCase s) ''%2f'',
      \<lambda>s. strIncludes (toLowerCase s) ''%5c'',
      \<lambda>s. strIncludes s [CHR 0x00]]"

definition validatePathTraversal :: "string \<Rightarrow> GopherError + unit" where
  "validatePathTraversal sel =
     (let normalizedPath = normalizePath sel
      in if strIncludes normalizedPath ''..''
         then Inl (GopherError ''Path traversal detected'' PATH_TRAVERSAL 403)
         else if list_ex (\<lambda>pattern. pattern sel) suspiciousPatterns
         then Inl (GopherError ''Suspicious path pattern detected'' SUSPICIOUS_PATH 403)
         else Inr ())"

definition validateAllowedPath :: "Host \<Rightarrow> SecurityManager \<Rightarrow> string \<Rightarrow> GopherError + unit" where
  "validateAllowedPath host sm sel =
     (let normalizedSelector = normalizePath (if sel = [] then ''/'' else sel);
          requestedPath =
            pathResolve (cwd host) [managerAllowedDataDirectory sm, drop 1 normalizedSelector]
      in if \<not> startsWith requestedPath (managerAllowedDataDirectory sm)
         then Inl (GopherError ''Access denied: Path outside allowed directory'' PATH_NOT_ALLOWED 403)
         else Inr ())"

text \<open>
  \<open>checkRateLimit\<close>: \<open>now\<close> is the value of \<open>Date.now()\<close>. The map is returned
  as the call leaves it; when the call throws, the map is as it was.
\<close>

definition checkRateLimit ::
  "SecurityOptions \<Rightarrow> int \<Rightarrow> string \<Rightarrow> RateLimitMap \<Rightarrow> GopherError + RateLimitMap" where
  "checkRateLimit opts now clientIP m =
     (case m clientIP of
        None \<Rightarrow> Inr (m(clientIP \<mapsto> \<lparr>count = 1, resetTime = now + rateLimitWindow opts\<rparr>))
      | Some clientData \<Rightarrow>
          if now > resetTime clientData
          then Inr (m(clientIP \<mapsto> \<lparr>count = 1, resetTime = now + rateLimitWindow opts\<rparr>))
          else if count clientData \<ge> rateLimitRequests opts
          then Inl (GopherError ''Rate limit exceeded'' RATE_LIMIT_EXCEEDED 429)
          else Inr (m(clientIP \<mapsto> clientData\<lparr>count := count clientData + 1\<rparr>)))"

text \<open>The character class \<open>[\u0000-\u0008\u000e-\u001f\u007f]\<close>.\<close>

definition forbiddenChars :: "char \<Rightarrow> bool" where
  "forbiddenChars c =
     (let n = (of_char c :: nat) in n \<le> 8 \<or> (14 \<le> n \<and> n \<le> 31) \<or> n = 127)"

definition validateSelector :: "string \<Rightarrow> GopherError + unit" where
  "validateSelector sel =
     (if length sel > 255
      then Inl (GopherError ''Selector too long'' SELECTOR_TOO_LONG 414)
      else if list_ex forbiddenChars sel
      then Inl (GopherError ''Invalid characters in selector'' INVALID_SELECTOR 400)
      else Inr ())"

text \<open>
  \<open>isRequestAllowed\<close>: the four checks in order. The first error is rethrown;
  the manager is returned with the rate-limit map as the checks left it. The
  checks throw nothing but a \<open>GopherError\<close>, so the wrapping of other
  exceptions into \<open>SECURITY_ERROR\<close> has no case here.
\<close>

definition isRequestAllowed ::
  "Host \<Rightarrow> int \<Rightarrow> SecurityManager \<Rightarrow> GopherRequest \<Rightarrow> string
     \<Rightarrow> (GopherError + bool) \<times> SecurityManager" where
  "isRequestAllowed host now sm request clientIP =
     (case validatePathTraversal (selector request) of
        Inl e \<Rightarrow> (Inl e, sm)
      | Inr _ \<Rightarrow>
     (case validateAllowedPath host sm (selector request) of
        Inl e \<Rightarrow> (Inl e, sm)
      | Inr _ \<Rightarrow>
     (case checkRateLimit (options sm) now clientIP (rateLimitMap sm) of
        Inl e \<Rightarrow> (Inl e, sm)
      | Inr m' \<Rightarrow>
     (case validateSelector (selector request) of
        Inl e \<Rightarrow> (Inl e, sm\<lparr>rateLimitMap := m'\<rparr>)
      | Inr _ \<Rightarrow> (Inr True, sm\<lparr>rateLimitMap := m'\<rparr>)))))"

definition validateFileSize :: "SecurityOptions \<Rightarrow> nat \<Rightarrow> GopherError + unit" where
  "validateFileSize opts fileSize =
     (if fileSize > maxFileSize opts
      then Inl (GopherError ''File too large'' FILE_TOO_LARGE 413)
      else Inr ())"

definition forbiddenExtensions :: "string list" where
  "forbiddenExtensions =
     [''.exe'', ''.bat'', ''.cmd'', ''.com'', ''.scr'', ''.pif'', ''.vbs'', ''.js'', ''.jar'',
      ''.sh'', ''.bin'']"

definition isFileTypeAllowed :: "string \<Rightarrow> bool" where
  "isFileTypeAllowed filePath =
     (let extension = toLowerCase (extname filePath)
      in extension \<notin> set forbiddenExtensions)"

section \<open>\<open>ProtocolHandler\<close>: classifier, parser, formatter (\<open>protocol.ts\<close>)\<close>

definition determineItemType :: "string \<Rightarrow> bool \<Rightarrow> GopherItemType" where
  "determineItemType filePath isDir =
     (if isDir then DIRECTORY
      else
        let extension = toLowerCase (extname filePath)
        in if extension = ''.txt'' \<or> extension = ''.md'' \<or> extension = ''.readme'' then FILE
           else if extension = ''.gif'' then GIF_IMAGE
           else if extension = ''.jpg'' \<or> extension = ''.jpeg'' \<or> extension = ''.png''
                   \<or> extension = ''.bmp'' then IMAGE
           else if extension = ''.html'' \<or> extension = ''.htm'' then HTML
           else if extension = ''.exe'' \<or> extension = ''.zip'' \<or> extension = ''.tar''
                   \<or> extension = ''.gz'' \<or> extension = ''.pdf'' then BINARY_FILE
           else FILE)"

text \<open>
  \<open>parts[i] || d\<close>: the field when it exists and is not empty, otherwise \<open>d\<close>.
\<close>

definition fieldOr :: "string list \<Rightarrow> nat \<Rightarrow> 'a \<Rightarrow> (string \<Rightarrow> 'a) \<Rightarrow> 'a" where
  "fieldOr parts i d f = (if i < length parts \<and> parts ! i \<noteq> [] then f (parts ! i) else d)"

text \<open>\<open>ProtocolHandler.parseRequest\<close>\<close>

definition parseRequest :: "string \<Rightarrow> GopherRequest" where
  "parseRequest rawRequest =
     (let trimmedData = trim rawRequest;
          parts = splitOn TAB trimmedData
      in \<lparr>selector = fieldOr parts 0 ''/'' (\<lambda>s. s),
          searchTerms = fieldOr parts 1 None Some\<rparr>)"

text \<open>The private \<open>GopherServer.parseRequest\<close> of \<open>server.ts\<close>.\<close>

definition serverParseRequest :: "string \<Rightarrow> GopherRequest" where
  "serverParseRequest rawData =
     (let trimmedData = trim rawData;
          parts = splitOn TAB trimmedData
      in \<lparr>selector = fieldOr parts 0 [] (\<lambda>s. s),
          searchTerms = fieldOr parts 1 None Some\<rparr>)"

text \<open>One menu line: tag, label, selector, host and port, tab-separated, then CRLF.\<close>

definition itemLine :: "GopherItem \<Rightarrow> string" where
  "itemLine item =
     typeChar (itemType item) # displayString item @ [TAB] @ itemSelector item @ [TAB]
       @ itemHostname item @ [TAB] @ showNat (itemPort item) @ CRLF"

text \<open>\<open>ProtocolHandler.formatDirectoryListing\<close>: the lines, then the menu terminator.\<close>

definition formatDirectoryListing :: "GopherItem list \<Rightarrow> string" where
  "formatDirectoryListing its = foldl (\<lambda>result item. result @ itemLine item) [] its @ ''.'' @ CRLF"

text \<open>The private \<open>GopherServer.formatDirectoryListing\<close>: the lines only.\<close>

definition serverFormatDirectoryListing :: "GopherItem list \<Rightarrow> string" where
  "serverFormatDirectoryListing its = concat (map itemLine its)"


section \<open>\<open>FileSystemHandler\<close> (\<open>filesystem.ts\<close>)\<close>

definition getFileStats :: "Host \<Rightarrow> string \<Rightarrow> GopherError + Stats" where
  "getFileStats host filePath =
     (case fsStat host filePath of
        Inr st \<Rightarrow> Inr st
      | Inl ENOENT \<Rightarrow> Inl (GopherError ''File not found'' FILE_NOT_FOUND 404)
      | Inl EACCES \<Rightarrow> Inl (GopherError ''Permission denied'' PERMISSION_DENIED 403)
      | Inl EOTHER \<Rightarrow> Inl (GopherError ''File system error'' FILESYSTEM_ERROR 500))"

definition binaryExtensions :: "string list" where
  "binaryExtensions =
     [''.jpg'', ''.jpeg'', ''.png'', ''.gif'', ''.bmp'', ''.ico'',
      ''.pdf'', ''.zip'', ''.tar'', ''.gz'', ''.rar'',
      ''.exe'', ''.dll'', ''.so'', ''.dylib'',
      ''.mp3'', ''.mp4'', ''.avi'', ''.mov'',
      ''.doc'', ''.docx'', ''.xls'', ''.xlsx'', ''.ppt'', ''.pptx'']"

definition isBinaryFile :: "string \<Rightarrow> bool" where
  "isBinaryFile extension = (extension \<in> set binaryExtensions)"

text \<open>
  \<open>readFile\<close>: stat, size check, type check, then the read. \<open>opts\<close> are the
  options of the handler's own security manager.
\<close>

definition readFile :: "Host \<Rightarrow> SecurityOptions \<Rightarrow> string \<Rightarrow> GopherError + Payload" where
  "readFile host opts filePath =
     (case getFileStats host filePath of
        Inl e \<Rightarrow> Inl e
      | Inr stats \<Rightarrow>
     (case validateFileSize opts (statSize stats) of
        Inl e \<Rightarrow> Inl e
      | Inr _ \<Rightarrow>
          if \<not> isFileTypeAllowed filePath
          then Inl (GopherError ''File type not allowed'' FILE_TYPE_FORBIDDEN 403)
          else
            let extension = toLowerCase (extname filePath);
                isBinary = isBinaryFile extension
            in (case fsReadFile host filePath of
                  None \<Rightarrow> Inl (GopherError ''Failed to read file'' READ_ERROR 500)
                | Some content \<Rightarrow> Inr (if isBinary then Buffer content else Text content))))"

text \<open>\<open>s.replace(/\\/g, '/')\<close>\<close>

definition backslashesToSlashes :: "string \<Rightarrow> string" where
  "backslashesToSlashes s = map (\<lambda>c. if c = CHR 0x5C then CHR ''/'' else c) s"

definition getParentSelector :: "Host \<Rightarrow> ServerConfig \<Rightarrow> string \<Rightarrow> string" where
  "getParentSelector host config dirPath =
     (let parentPath = dirname dirPath
      in if parentPath = documentRoot config then ''/''
         else
           let relativePath = pathRelative (cwd host) (documentRoot config) parentPath
           in ''/'' @ backslashesToSlashes relativePath)"

definition formatDisplayString :: "string \<Rightarrow> bool \<Rightarrow> string" where
  "formatDisplayString filename isDir =
     (let maxLength = 67;
          displayName = (if isDir then filename @ ''/'' else filename)
      in if length displayName > maxLength
         then take (maxLength - 3) displayName @ ''...''
         else displayName)"

text \<open>The comparison function handed to \<open>sort\<close> in \<open>getDirectoryListing\<close>.\<close>

definition compareItems :: "Host \<Rightarrow> GopherItem \<Rightarrow> GopherItem \<Rightarrow> int" where
  "compareItems host a b =
     (if itemType a = DIRECTORY \<and> itemType b \<noteq> DIRECTORY then - 1
      else if itemType a \<noteq> DIRECTORY \<and> itemType b = DIRECTORY then 1
      else localeCompare host (displayString a) (displayString b))"

text \<open>The synthetic entry pushed first for a directory other than the document root.\<close>

definition parentItem :: "Host \<Rightarrow> ServerConfig \<Rightarrow> string \<Rightarrow> GopherItem" where
  "parentItem host config dirPath =
     \<lparr>itemType = DIRECTORY, displayString = ''..'',
      itemSelector = getParentSelector host config dirPath,
      itemHostname = hostname config, itemPort = port config\<rparr>"

text \<open>The item pushed for one directory entry that is not hidden.\<close>

definition entryItem :: "Host \<Rightarrow> ServerConfig \<Rightarrow> string \<Rightarrow> Dirent \<Rightarrow> GopherItem" where
  "entryItem host config dirPath entry =
     (let fullPath = pathJoin dirPath (name entry);
          relativePath = pathRelative (cwd host) (documentRoot config) fullPath;
          sel = ''/'' @ backslashesToSlashes relativePath;
          ty = determineItemType fullPath (direntIsDirectory entry)
      in \<lparr>itemType = ty,
          displayString = formatDisplayString (name entry) (direntIsDirectory entry),
          itemSelector = sel,
          itemHostname = hostname config, itemPort = port config\<rparr>)"

definition getDirectoryListing ::
  "Host \<Rightarrow> ServerConfig \<Rightarrow> string \<Rightarrow> GopherError + GopherItem list" where
  "getDirectoryListing host config dirPath =
     (case fsReaddir host dirPath of
        None \<Rightarrow> Inl (GopherError ''Failed to read directory'' DIRECTORY_ERROR 500)
      | Some entries \<Rightarrow>
          let pushed =
                (if dirPath \<noteq> documentRoot config then [parentItem host config dirPath] else [])
                @ map (entryItem host config dirPath)
                    (filter (\<lambda>entry. \<not> startsWith (name entry) ''.'') entries)
          in Inr (sortBy (compareItems host) pushed))"

section \<open>\<open>ProtocolHandler\<close>: request handling (\<open>protocol.ts\<close>)\<close>

definition validateRequest :: "GopherRequest \<Rightarrow> GopherError + unit" where
  "validateRequest request =
     (if strIncludes (selector request) ''..''
      then Inl (GopherError ''Path traversal not allowed'' PATH_TRAVERSAL 403)
      else if length (selector request) > 255
      then Inl (GopherError ''Selector too long'' SELECTOR_TOO_LONG 414)
      else Inr ())"

definition resolvePath :: "ServerConfig \<Rightarrow> string \<Rightarrow> GopherError + string" where
  "resolvePath config sel =
     (let normalizedSelector = normalizePath (if \<not> startsWith sel ''/'' then ''/'' @ sel else sel);
          resolvedPath = pathJoin (documentRoot config) normalizedSelector
      in if \<not> startsWith resolvedPath (documentRoot config)
         then Inl (GopherError ''Path traversal not allowed'' PATH_TRAVERSAL 403)
         else Inr resolvedPath)"

definition handleSearchRequest ::
  "Host \<Rightarrow> ServerConfig \<Rightarrow> string \<Rightarrow> string \<Rightarrow> GopherError + GopherResponse" where
  "handleSearchRequest host config dirPath terms =
     (case getDirectoryListing host config dirPath of
        Inl e \<Rightarrow> Inl e
      | Inr allItems \<Rightarrow>
          let filteredItems =
                filter (\<lambda>item.
                    strIncludes (toLowerCase (displayString item)) (toLowerCase terms)
                  \<or> strIncludes (toLowerCase (itemSelector item)) (toLowerCase terms)) allItems
          in Inr \<lparr>data = Text [], isDirectory = True, items = Some filteredItems\<rparr>)"

definition handleDirectoryRequest ::
  "Host \<Rightarrow> ServerConfig \<Rightarrow> string \<Rightarrow> GopherRequest \<Rightarrow> GopherError + GopherResponse" where
  "handleDirectoryRequest host config dirPath request =
     (case searchTerms request of
        Some terms \<Rightarrow>
          if terms \<noteq> [] then handleSearchRequest host config dirPath terms
          else (case getDirectoryListing host config dirPath of
                  Inl e \<Rightarrow> Inl e
                | Inr its \<Rightarrow> Inr \<lparr>data = Text [], isDirectory = True, items = Some its\<rparr>)
      | None \<Rightarrow>
          (case getDirectoryListing host config dirPath of
             Inl e \<Rightarrow> Inl e
           | Inr its \<Rightarrow> Inr \<lparr>data = Text [], isDirectory = True, items = Some its\<rparr>))"

definition handleFileRequest ::
  "Host \<Rightarrow> SecurityOptions \<Rightarrow> string \<Rightarrow> GopherError + GopherResponse" where
  "handleFileRequest host opts filePath =
     (case readFile host opts filePath of
        Inl e \<Rightarrow> Inl e
      | Inr content \<Rightarrow> Inr \<lparr>data = content, isDirectory = False, items = None\<rparr>)"

text \<open>\<open>ProtocolHandler.handleRequest\<close>\<close>

definition handleRequest ::
  "Host \<Rightarrow> ServerConfig \<Rightarrow> SecurityOptions \<Rightarrow> GopherRequest \<Rightarrow> GopherError + GopherResponse" where
  "handleRequest host config opts request =
     (case validateRequest request of
        Inl e \<Rightarrow> Inl e
      | Inr _ \<Rightarrow>
          let sel = (if selector request = [] \<or> selector request = ''/'' then ''/''
                     else selector request)
          in (case resolvePath config sel of
                Inl e \<Rightarrow> Inl e
              | Inr resolvedPath \<Rightarrow>
                  (case getFileStats host resolvedPath of
                     Inl e \<Rightarrow> Inl e
                   | Inr stats \<Rightarrow>
                       if statIsDirectory stats
                       then handleDirectoryRequest host config resolvedPath request
                       else handleFileRequest host opts resolvedPath)))"

section \<open>\<open>GopherServer\<close>: one connection (\<open>server.ts\<close>)\<close>

text \<open>What a \<open>catch\<close> clause may receive.\<close>

datatype Thrown = Gopher GopherError | OtherError string | NotAnError

text \<open>
  The item fields after the message of an error line: selector \<open>error\<close>, host
  \<open>error\<close>, port 70.
\<close>

definition errorTail :: string where
  "errorTail = [TAB] @ ''error'' @ [TAB] @ ''error'' @ [TAB] @ ''70'' @ CRLF"

text \<open>\<open>handleRequestError\<close>: the bytes written to the socket before it is closed.\<close>

definition handleRequestError :: "Thrown \<Rightarrow> string" where
  "handleRequestError err =
     (case err of
        Gopher e \<Rightarrow> ''3Error: '' @ message e @ errorTail
      | OtherError _ \<Rightarrow> ''3Internal server error'' @ errorTail
      | NotAnError \<Rightarrow> ''3Internal server error'' @ errorTail)
     @ ''.'' @ CRLF"

text \<open>
  \<open>GopherServer.handleRequest\<close>: the bytes written to the socket for one chunk
  of request data, and the security manager as the request leaves it.
\<close>

definition serverHandleRequest ::
  "Host \<Rightarrow> int \<Rightarrow> ServerConfig \<Rightarrow> SecurityOptions \<Rightarrow> SecurityManager \<Rightarrow> string \<Rightarrow> string
     \<Rightarrow> string \<times> SecurityManager" where
  "serverHandleRequest host now config fsOpts sm rawData remoteAddress =
     (if length rawData > maxRequestSize config
      then (handleRequestError (Gopher (GopherError ''Request too large'' REQUEST_TOO_LARGE 413)), sm)
      else
        let request = serverParseRequest rawData
        in (case isRequestAllowed host now sm request remoteAddress of
              (Inl e, sm') \<Rightarrow> (handleRequestError (Gopher e), sm')
            | (Inr allowed, sm') \<Rightarrow>
                if \<not> allowed
                then (handleRequestError
                        (Gopher (GopherError ''Request not allowed'' REQUEST_FORBIDDEN 403)), sm')
                else
                  (case handleRequest host config fsOpts request of
                     Inl e \<Rightarrow> (handleRequestError (Gopher e), sm')
                   | Inr response \<Rightarrow>
                       ((case (isDirectory response, items response) of
                           (True, Some its) \<Rightarrow> serverFormatDirectoryListing its
                         | _ \<Rightarrow> payloadBytes (data response))
                        @ ''.'' @ CRLF, sm'))))"

section \<open>A sample host\<close>

text \<open>
  A collation for examples: code units compared in order, a proper prefix
  first. On the labels used in the examples below it agrees in sign with the
  host's default collation.
\<close>

fun codeUnitCompare :: "string \<Rightarrow> string \<Rightarrow> int" where
  "codeUnitCompare [] [] = 0"
| "codeUnitCompare [] (y # ys) = - 1"
| "codeUnitCompare (x # xs) [] = 1"
| "codeUnitCompare (x # xs) (y # ys) =
     (if (of_char x :: nat) < of_char y then - 1
      else if (of_char y :: nat) < of_char x then 1
      else codeUnitCompare xs ys)"

text \<open>
  A document root \<open>/srv/gopher\<close> holding \<open>docs/\<close> (with \<open>-old/\<close>, \<open>sub/\<close>,
  \<open>searchable.txt\<close>, \<open>other.txt\<close> and the hidden \<open>.git\<close>), \<open>test.txt\<close>,
  \<open>notes.txt\<close>, whose second line is a lone full stop, and \<open>run.exe\<close>.
\<close>

definition sampleConfig :: ServerConfig where
  "sampleConfig =
     \<lparr>port = 70, hostname = ''localhost'', documentRoot = ''/srv/gopher'',
      maxRequestSize = 1024, connectionTimeout = 30000, enableLogging = False,
      allowedDataDirectory = ''/srv/gopher''\<rparr>"

definition sampleStat :: "string \<Rightarrow> FsErrno + Stats" where
  "sampleStat p =
     (if p = ''/srv/gopher'' \<or> p = ''/srv/gopher/'' \<or> p = ''/srv/gopher/docs''
         \<or> p = ''/srv/gopher/docs/-old'' \<or> p = ''/srv/gopher/docs/sub''
      then Inr \<lparr>statIsDirectory = True, statSize = 4096\<rparr>
      else if p = ''/srv/gopher/test.txt'' then Inr \<lparr>statIsDirectory = False, statSize = 14\<rparr>
      else if p = ''/srv/gopher/notes.txt'' then Inr \<lparr>statIsDirectory = False, statSize = 9\<rparr>
      else if p = ''/srv/gopher/run.exe'' then Inr \<lparr>statIsDirectory = False, statSize = 15\<rparr>
      else if p = ''/srv/gopher/big.exe'' then Inr \<lparr>statIsDirectory = False, statSize = 20971520\<rparr>
      else if p = ''/srv/gopher/docs/searchable.txt'' \<or> p = ''/srv/gopher/docs/other.txt''
      then Inr \<lparr>statIsDirectory = False, statSize = 5\<rparr>
      else Inl ENOENT)"

definition sampleReaddir :: "string \<Rightarrow> Dirent list option" where
  "sampleReaddir p =
     (if p = ''/srv/gopher'' \<or> p = ''/srv/gopher/''
      then Some [\<lparr>name = ''test.txt'', direntIsDirectory = False\<rparr>,
                 \<lparr>name = ''docs'', direntIsDirectory = True\<rparr>,
                 \<lparr>name = ''notes.txt'', direntIsDirectory = False\<rparr>,
                 \<lparr>name = ''run.exe'', direntIsDirectory = False\<rparr>,
                 \<lparr>name = ''big.exe'', direntIsDirectory = False\<rparr>]
      else if p = ''/srv/gopher/docs''
      then Some [\<lparr>name = ''.git'', direntIsDirectory = True\<rparr>,
                 \<lparr>name = ''searchable.txt'', direntIsDirectory = False\<rparr>,
                 \<lparr>name = ''sub'', direntIsDirectory = True\<rparr>,
                 \<lparr>name = ''other.txt'', direntIsDirectory = False\<rparr>,
                 \<lparr>name = ''-old'', direntIsDirectory = True\<rparr>]
      else if p = ''/srv/gopher/docs/-old'' \<or> p = ''/srv/gopher/docs/sub'' then Some []
      else None)"

definition sampleReadFile :: "string \<Rightarrow> string option" where
  "sampleReadFile p =
     (if p = ''/srv/gopher/test.txt'' then Some ''Hello, Gopher!''
      else if p = ''/srv/gopher/notes.txt'' then Some (''a'' @ CRLF @ ''.'' @ CRLF @ ''b'' @ CRLF)
      else if p = ''/srv/gopher/run.exe'' then Some ''fake executable''
      else if p = ''/srv/gopher/docs/searchable.txt'' \<or> p = ''/srv/gopher/docs/other.txt''
      then Some ''hello''
      else None)"

definition sampleHost :: Host where
  "sampleHost =
     \<lparr>cwd = ''/home/gopher'', fsStat = sampleStat, fsReaddir = sampleReaddir,
      fsReadFile = sampleReadFile, localeCompare = codeUnitCompare\<rparr>"

section \<open>Notions used in the statements\<close>

text \<open>Classes of code units: the C0 controls with DEL, the controls that are
  white space (tab, line feed, vertical tab, form feed, carriage return), and
  printable ASCII.\<close>

definition isControlChar :: "char \<Rightarrow> bool" where
  "isControlChar c = (let n = (of_char c :: nat) in n < 32 \<or> n = 127)"

definition isWhitespaceControl :: "char \<Rightarrow> bool" where
  "isWhitespaceControl c = (let n = (of_char c :: nat) in 9 \<le> n \<and> n \<le> 13)"

definition isPrintableAscii :: "char \<Rightarrow> bool" where
  "isPrintableAscii c = (let n = (of_char c :: nat) in 32 \<le> n \<and> n \<le> 126)"

text \<open>
  A sequence of calls of \<open>checkRateLimit\<close> on one manager, each with the clock
  value it reads and the client address. The outcome of a call is the error
  it throws, if any; a call that throws leaves the map as it was.
\<close>

fun rateLimitRun ::
  "SecurityOptions \<Rightarrow> (int \<times> string) list \<Rightarrow> RateLimitMap
     \<Rightarrow> GopherError option list \<times> RateLimitMap" where
  "rateLimitRun opts [] m = ([], m)"
| "rateLimitRun opts ((now, ip) # calls) m =
     (case checkRateLimit opts now ip m of
        Inl e \<Rightarrow> (case rateLimitRun opts calls m of (outs, m') \<Rightarrow> (Some e # outs, m'))
      | Inr m1 \<Rightarrow> (case rateLimitRun opts calls m1 of (outs, m') \<Rightarrow> (None # outs, m')))"

text \<open>The calls of one client among the calls of all.\<close>

definition callsOf :: "string \<Rightarrow> (int \<times> string) list \<Rightarrow> (int \<times> string) list" where
  "callsOf ip calls = filter (\<lambda>call. snd call = ip) calls"

text \<open>Options for examples: two requests in a window of one second.\<close>

definition sampleOptions :: SecurityOptions where
  "sampleOptions = defaultSecurityOptions\<lparr>rateLimitRequests := 2, rateLimitWindow := 1000\<rparr>"

text \<open>
  A selector that contains a traversal sequence: a literal \<open>..\<close>, a slash or a
  backslash on both sides of a dot, one of the percent-encodings \<open>%2e%2e\<close>,
  \<open>%2f\<close>, \<open>%5c\<close> in either case, or a NUL.
\<close>

definition containsTraversalSequence :: "string \<Rightarrow> bool" where
  "containsTraversalSequence sel =
     (strIncludes sel ''..'' \<or> strIncludes sel ''/./''
      \<or> strIncludes sel [CHR 0x5C, CHR ''.'', CHR 0x5C]
      \<or> strIncludes (toLowerCase sel) ''%2e%2e'' \<or> strIncludes (toLowerCase sel) ''%2f''
      \<or> strIncludes (toLowerCase sel) ''%5c'' \<or> strIncludes sel [CHR 0x00])"

text \<open>The manager of the examples: the allowed directory is the sample root.\<close>

definition sampleManager :: SecurityManager where
  "sampleManager = newSecurityManager sampleHost ''/srv/gopher'' defaultSecurityOptions"

text \<open>
  A collation orders strings: any two are comparable, and the order is
  transitive. The sign convention is that of \<open>localeCompare\<close>: not positive
  when the first string does not come after the second.
\<close>

definition isCollation :: "(string \<Rightarrow> string \<Rightarrow> int) \<Rightarrow> bool" where
  "isCollation lc =
     ((\<forall>a b. lc a b \<le> 0 \<or> lc b a \<le> 0)
      \<and> (\<forall>a b c. lc a b \<le> 0 \<and> lc b c \<le> 0 \<longrightarrow> lc a c \<le> 0))"

text \<open>The listing of \<open>docs\<close> on the sample host.\<close>

definition docsListing :: "GopherItem list" where
  "docsListing =
     [\<lparr>itemType = DIRECTORY, displayString = ''-old/'', itemSelector = ''/docs/-old'',
        itemHostname = ''localhost'', itemPort = 70\<rparr>,
      \<lparr>itemType = DIRECTORY, displayString = ''..'', itemSelector = ''/'',
        itemHostname = ''localhost'', itemPort = 70\<rparr>,
      \<lparr>itemType = DIRECTORY, displayString = ''sub/'', itemSelector = ''/docs/sub'',
        itemHostname = ''localhost'', itemPort = 70\<rparr>,
      \<lparr>itemType = FILE, displayString = ''other.txt'', itemSelector = ''/docs/other.txt'',
        itemHostname = ''localhost'', itemPort = 70\<rparr>,
      \<lparr>itemType = FILE, displayString = ''searchable.txt'',
        itemSelector = ''/docs/searchable.txt'',
        itemHostname = ''localhost'', itemPort = 70\<rparr>]"

text \<open>
  The lines of a response: the pieces between consecutive CRLF pairs. A
  terminator line is a line that holds a full stop and nothing else.
\<close>

fun splitCRLF :: "string \<Rightarrow> string list" where
  "splitCRLF [] = [[]]"
| "splitCRLF [c] = [[c]]"
| "splitCRLF (c # d # cs) =
     (if c = CHR 0x0D \<and> d = CHR 0x0A then [] # splitCRLF cs
      else (case splitCRLF (d # cs) of l # ls \<Rightarrow> (c # l) # ls | [] \<Rightarrow> [[c]]))"

definition terminatorLines :: "string \<Rightarrow> nat" where
  "terminatorLines s = length (filter (\<lambda>l. l = ''.'') (splitCRLF s))"

text \<open>An item none of whose text fields holds a line feed.\<close>

definition lineFeedFree :: "GopherItem \<Rightarrow> bool" where
  "lineFeedFree item =
     (CHR 0x0A \<notin> set (displayString item) \<and> CHR 0x0A \<notin> set (itemSelector item)
      \<and> CHR 0x0A \<notin> set (itemHostname item))"

text \<open>
  A plain path segment: not empty, without slash, and neither \<open>.\<close> nor \<open>..\<close>.
  \<open>absPath\<close> writes the absolute path with the given segments.
\<close>

definition plainSegment :: "string \<Rightarrow> bool" where
  "plainSegment s = (s \<noteq> [] \<and> CHR ''/'' \<notin> set s \<and> s \<noteq> ''.'' \<and> s \<noteq> ''..'')"

definition absPath :: "string list \<Rightarrow> string" where
  "absPath segs = ''/'' @ joinWith ''/'' segs"

section \<open>Properties: strings\<close>

lemma startsWith_iff: "startsWith s p \<longleftrightarrow> (\<exists>t. s = p @ t)"
  by (induction s p rule: startsWith.induct) auto

lemma strIncludes_iff: "strIncludes s p \<longleftrightarrow> (\<exists>pre post. s = pre @ p @ post)"
proof (induction s)
  case Nil
  then show ?case by simp
next
  case (Cons c s)
  show ?case
  proof
    assume "strIncludes (c # s) p"
    then consider "startsWith (c # s) p" | "strIncludes s p" by auto
    then show "\<exists>pre post. c # s = pre @ p @ post"
    proof cases
      case 1
      then obtain t where "c # s = p @ t" by (auto simp: startsWith_iff)
      then have "c # s = [] @ p @ t" by simp
      then show ?thesis by blast
    next
      case 2
      then obtain pre post where "s = pre @ p @ post" using Cons.IH by blast
      then have "c # s = (c # pre) @ p @ post" by simp
      then show ?thesis by blast
    qed
  next
    assume "\<exists>pre post. c # s = pre @ p @ post"
    then obtain pre post where eq: "c # s = pre @ p @ post" by blast
    show "strIncludes (c # s) p"
    proof (cases pre)
      case Nil
      with eq have "startsWith (c # s) p" by (auto simp: startsWith_iff)
      then show ?thesis by simp
    next
      case (Cons a pre')
      with eq have "s = pre' @ p @ post" by simp
      then have "strIncludes s p" using Cons.IH by blast
      then show ?thesis by simp
    qed
  qed
qed

section \<open>Properties: selector shape\<close>

lemma forbiddenChars_iff: "forbiddenChars c \<longleftrightarrow> isControlChar c \<and> \<not> isWhitespaceControl c"
  by (auto simp: forbiddenChars_def isControlChar_def isWhitespaceControl_def Let_def)

lemma printable_not_control: "isPrintableAscii c \<Longrightarrow> \<not> isControlChar c"
  by (auto simp: isPrintableAscii_def isControlChar_def Let_def)

text \<open>
  C8 (as amended). \<open>validateSelector\<close> rejects a selector longer than 255 units
  with \<open>SELECTOR_TOO_LONG\<close>. A selector within the limit is rejected with
  \<open>INVALID_SELECTOR\<close> when it holds a control character other than the five
  white-space controls U+0009..U+000D, and passes otherwise; in particular
  every selector of printable ASCII within the limit passes.
\<close>

theorem validateSelector_kinds:
  "(255 < length sel \<longrightarrow>
      validateSelector sel = Inl (GopherError ''Selector too long'' SELECTOR_TOO_LONG 414))
   \<and> (length sel \<le> 255 \<and> (\<exists>c\<in>set sel. isControlChar c \<and> \<not> isWhitespaceControl c) \<longrightarrow>
      validateSelector sel = Inl (GopherError ''Invalid characters in selector'' INVALID_SELECTOR 400))
   \<and> (length sel \<le> 255 \<and> (\<forall>c\<in>set sel. isControlChar c \<longrightarrow> isWhitespaceControl c) \<longrightarrow>
      validateSelector sel = Inr ())
   \<and> (length sel \<le> 255 \<and> (\<forall>c\<in>set sel. isPrintableAscii c) \<longrightarrow> validateSelector sel = Inr ())"
  using printable_not_control
  by (auto simp: validateSelector_def list_ex_iff forbiddenChars_iff)

theorem validateSelector_kinds_witness:
  "validateSelector (replicate 256 (CHR ''a'')) = Inl (GopherError ''Selector too long'' SELECTOR_TOO_LONG 414)
   \<and> validateSelector [CHR ''/'', CHR 0x01] = Inl (GopherError ''Invalid characters in selector'' INVALID_SELECTOR 400)
   \<and> validateSelector [CHR ''/'', CHR 0x09, CHR ''a''] = Inr ()
   \<and> validateSelector ''/test-file_123.txt'' = Inr ()"
proof (intro conjI)
  have 1: "255 < length (replicate 256 (CHR ''a''))" by simp
  show "validateSelector (replicate 256 (CHR ''a'')) = Inl (GopherError ''Selector too long'' SELECTOR_TOO_LONG 414)"
    by (rule mp [OF conjunct1 [OF validateSelector_kinds] 1])
next
  have 2: "length [CHR ''/'', CHR 0x01] \<le> 255 \<and> (\<exists>c\<in>set [CHR ''/'', CHR 0x01]. isControlChar c \<and> \<not> isWhitespaceControl c)"
    by (simp add: isControlChar_def isWhitespaceControl_def)
  show "validateSelector [CHR ''/'', CHR 0x01] = Inl (GopherError ''Invalid characters in selector'' INVALID_SELECTOR 400)"
    by (rule mp [OF conjunct1 [OF conjunct2 [OF validateSelector_kinds]] 2])
next
  have 3: "length [CHR ''/'', CHR 0x09, CHR ''a''] \<le> 255 \<and> (\<forall>c\<in>set [CHR ''/'', CHR 0x09, CHR ''a'']. isControlChar c \<longrightarrow> isWhitespaceControl c)"
    by (simp add: isControlChar_def isWhitespaceControl_def)
  show "validateSelector [CHR ''/'', CHR 0x09, CHR ''a''] = Inr ()"
    by (rule mp [OF conjunct1 [OF conjunct2 [OF conjunct2 [OF validateSelector_kinds]]] 3])
next
  have 4: "length ''/test-file_123.txt'' \<le> 255 \<and> (\<forall>c\<in>set ''/test-file_123.txt''. isPrintableAscii c)"
    by (simp add: isPrintableAscii_def)
  show "validateSelector ''/test-file_123.txt'' = Inr ()"
    by (rule mp [OF conjunct2 [OF conjunct2 [OF conjunct2 [OF validateSelector_kinds]]] 4])
qed

text \<open>
  The vertical tab is a control character other than the tab, and a selector
  holding it passes the check.
\<close>

theorem validateSelector_control_counterexample:
  "isControlChar (CHR 0x0B) \<and> CHR 0x0B \<noteq> TAB
   \<and> CHR 0x0B \<in> set [CHR ''a'', CHR 0x0B, CHR ''b'']
   \<and> validateSelector [CHR ''a'', CHR 0x0B, CHR ''b''] = Inr ()"
  by (simp add: isControlChar_def TAB_def validateSelector_def forbiddenChars_def)


section \<open>Properties: the two request parsers\<close>

lemma splitOn_not_Nil: "splitOn c s \<noteq> []"
  by (induction s) (auto split: list.splits)

lemma hd_splitOn_Cons: "x \<noteq> c \<Longrightarrow> hd (splitOn c (x # xs)) \<noteq> []"
  by (simp split: list.splits)

lemma isWhiteSpace_TAB: "isWhiteSpace TAB"
  by (simp add: isWhiteSpace_def TAB_def)

lemma trim_Nil_iff: "trim s = [] \<longleftrightarrow> (\<forall>c\<in>set s. isWhiteSpace c)"
proof -
  let ?d = "dropWhile isWhiteSpace s"
  show ?thesis
  proof (cases "?d = []")
    case True
    then have "\<forall>c\<in>set s. isWhiteSpace c" by (simp only: dropWhile_eq_Nil_conv)
    moreover have "trim s = []" unfolding trim_def True by simp
    ultimately show ?thesis by simp
  next
    case False
    then have nw: "\<not> isWhiteSpace (hd ?d)" by (rule hd_dropWhile)
    from False have "hd ?d \<in> set (rev ?d)" by simp
    with nw have "\<not> (\<forall>c\<in>set (rev ?d). isWhiteSpace c)" by blast
    then have "dropWhile isWhiteSpace (rev ?d) \<noteq> []"
      by (simp only: dropWhile_eq_Nil_conv not_False_eq_True)
    then have "trim s \<noteq> []" by (simp add: trim_def)
    moreover from False have "\<not> (\<forall>c\<in>set s. isWhiteSpace c)"
      by (simp only: dropWhile_eq_Nil_conv not_False_eq_True)
    ultimately show ?thesis by simp
  qed
qed

lemma hd_trim: "trim s \<noteq> [] \<Longrightarrow> \<not> isWhiteSpace (hd (trim s))"
proof -
  assume ne: "trim s \<noteq> []"
  let ?d = "dropWhile isWhiteSpace s"
  from ne have dne: "?d \<noteq> []" by (auto simp: trim_def dest: set_dropWhileD)
  then obtain x d' where d: "?d = x # d'" by (cases ?d) auto
  from dne have nw: "\<not> isWhiteSpace (hd ?d)" by (rule hd_dropWhile)
  with d have nx: "\<not> isWhiteSpace x" by simp
  have "dropWhile isWhiteSpace (rev d' @ [x]) = dropWhile isWhiteSpace (rev d') @ [x]"
    using nx by (simp add: dropWhile_append)
  then have "trim s = x # rev (dropWhile isWhiteSpace (rev d'))"
    using d by (simp add: trim_def)
  with nx show ?thesis by simp
qed

lemma first_field_nonempty:
  assumes "trim raw \<noteq> []"
  shows "splitOn TAB (trim raw) ! 0 \<noteq> []"
proof -
  from assms obtain x xs where t: "trim raw = x # xs" by (cases "trim raw") auto
  from hd_trim [OF assms] t have "x \<noteq> TAB" using isWhiteSpace_TAB by auto
  then have "hd (splitOn TAB (x # xs)) \<noteq> []" by (rule hd_splitOn_Cons)
  then show ?thesis using t splitOn_not_Nil [of TAB "x # xs"] by (simp add: hd_conv_nth)
qed

text \<open>
  C9 (as amended). \<open>ProtocolHandler.parseRequest\<close> and the private
  \<open>GopherServer.parseRequest\<close> return the same search terms for every raw
  line, and the same request for every line that is not blank. On an empty
  or white-space-only line the first returns the selector \<open>/\<close> and the second
  the empty selector.
\<close>

theorem parsers_agree_unless_blank:
  "searchTerms (parseRequest raw) = searchTerms (serverParseRequest raw)
   \<and> ((\<exists>c\<in>set raw. \<not> isWhiteSpace c) \<longrightarrow> parseRequest raw = serverParseRequest raw)
   \<and> ((\<forall>c\<in>set raw. isWhiteSpace c) \<longrightarrow>
        selector (parseRequest raw) = ''/'' \<and> selector (serverParseRequest raw) = [])"
proof (intro conjI impI)
  show "searchTerms (parseRequest raw) = searchTerms (serverParseRequest raw)"
    by (simp add: parseRequest_def serverParseRequest_def Let_def)
next
  assume "\<exists>c\<in>set raw. \<not> isWhiteSpace c"
  then have "trim raw \<noteq> []" by (simp add: trim_Nil_iff)
  then have "splitOn TAB (trim raw) ! 0 \<noteq> []" by (rule first_field_nonempty)
  then show "parseRequest raw = serverParseRequest raw"
    using splitOn_not_Nil [of TAB "trim raw"]
    by (simp add: parseRequest_def serverParseRequest_def fieldOr_def)
next
  assume "\<forall>c\<in>set raw. isWhiteSpace c"
  then have "trim raw = []" by (simp add: trim_Nil_iff)
  then show "selector (parseRequest raw) = ''/''"
    by (simp add: parseRequest_def fieldOr_def)
next
  assume "\<forall>c\<in>set raw. isWhiteSpace c"
  then have "trim raw = []" by (simp add: trim_Nil_iff)
  then show "selector (serverParseRequest raw) = []"
    by (simp add: serverParseRequest_def fieldOr_def)
qed

theorem parsers_agree_unless_blank_witness:
  "parseRequest (''/docs'' @ [TAB] @ ''term'' @ CRLF) = serverParseRequest (''/docs'' @ [TAB] @ ''term'' @ CRLF)
   \<and> selector (parseRequest ('' '' @ CRLF)) = ''/''
   \<and> selector (serverParseRequest ('' '' @ CRLF)) = []"
proof -
  have 1: "\<exists>c\<in>set (''/docs'' @ [TAB] @ ''term'' @ CRLF). \<not> isWhiteSpace c"
    by (simp add: isWhiteSpace_def)
  have 2: "\<forall>c\<in>set ('' '' @ CRLF). isWhiteSpace c"
    by (simp add: isWhiteSpace_def CRLF_def)
  have a: "parseRequest (''/docs'' @ [TAB] @ ''term'' @ CRLF) = serverParseRequest (''/docs'' @ [TAB] @ ''term'' @ CRLF)"
    by (rule mp [OF conjunct1 [OF conjunct2 [OF parsers_agree_unless_blank]] 1])
  have b: "selector (parseRequest ('' '' @ CRLF)) = ''/'' \<and> selector (serverParseRequest ('' '' @ CRLF)) = []"
    by (rule mp [OF conjunct2 [OF conjunct2 [OF parsers_agree_unless_blank]] 2])
  from a b show ?thesis by (intro conjI) (rule a, rule conjunct1 [OF b], rule conjunct2 [OF b])
qed

text \<open>On the line that holds only CRLF the two parsers return different requests.\<close>

theorem parsers_blank_line_counterexample:
  "selector (parseRequest CRLF) = ''/'' \<and> selector (serverParseRequest CRLF) = []
   \<and> parseRequest CRLF \<noteq> serverParseRequest CRLF"
  by (simp add: parseRequest_def serverParseRequest_def trim_def CRLF_def isWhiteSpace_def
      fieldOr_def)

text \<open>The equations that evaluate paths and the sample host on concrete inputs.\<close>

lemmas path_defs = normalizePath_def normalizeString_def normalizeSegments_def normStep_def
  pathJoin_def pathResolve_def pathRelative_def segments_def dirname_def extname_def
  lastComponent_def stripTrailingSlashes_def

lemmas sample_defs = sampleHost_def sampleConfig_def sampleStat_def sampleReaddir_def
  sampleReadFile_def


section \<open>Properties: the item classifier\<close>

text \<open>
  C4. \<open>determineItemType\<close> returns one of the six tags \<open>0\<close>, \<open>1\<close>, \<open>g\<close>, \<open>I\<close>,
  \<open>h\<close>, \<open>9\<close> for every path and flag, never the error tag. A directory is
  tagged \<open>1\<close> whatever its name. A file is tagged by its lower-cased
  extension as the table says, and \<open>0\<close> for every extension outside the table.
\<close>

theorem determineItemType_table:
  "typeChar (determineItemType p d) \<in> {CHR ''0'', CHR ''1'', CHR ''g'', CHR ''I'', CHR ''h'', CHR ''9''}
   \<and> determineItemType p d \<noteq> ERROR
   \<and> (d \<longrightarrow> typeChar (determineItemType p d) = CHR ''1'')
   \<and> (\<not> d \<longrightarrow>
        (let e = toLowerCase (extname p) in
           (e \<in> {''.txt'', ''.md'', ''.readme''} \<longrightarrow> typeChar (determineItemType p d) = CHR ''0'')
         \<and> (e = ''.gif'' \<longrightarrow> typeChar (determineItemType p d) = CHR ''g'')
         \<and> (e \<in> {''.jpg'', ''.jpeg'', ''.png'', ''.bmp''} \<longrightarrow>
              typeChar (determineItemType p d) = CHR ''I'')
         \<and> (e \<in> {''.html'', ''.htm''} \<longrightarrow> typeChar (determineItemType p d) = CHR ''h'')
         \<and> (e \<in> {''.exe'', ''.zip'', ''.tar'', ''.gz'', ''.pdf''} \<longrightarrow>
              typeChar (determineItemType p d) = CHR ''9'')
         \<and> (e \<notin> {''.txt'', ''.md'', ''.readme'', ''.gif'', ''.jpg'', ''.jpeg'', ''.png'', ''.bmp'',
                   ''.html'', ''.htm'', ''.exe'', ''.zip'', ''.tar'', ''.gz'', ''.pdf''} \<longrightarrow>
              typeChar (determineItemType p d) = CHR ''0'')))"
  by (simp add: determineItemType_def Let_def)


theorem determineItemType_table_witness:
  "typeChar (determineItemType ''/some/directory.txt'' True) = CHR ''1''
   \<and> typeChar (determineItemType ''/a/photo.JPG'' False) = CHR ''I''
   \<and> typeChar (determineItemType ''/readme.rst'' False) = CHR ''0''"
proof (intro conjI)
  show "typeChar (determineItemType ''/some/directory.txt'' True) = CHR ''1''"
    using determineItemType_table [of "''/some/directory.txt''" True] by simp
next
  have e: "toLowerCase (extname ''/a/photo.JPG'') = ''.jpg''"
    by (simp add: path_defs toLowerCase_def lowerChar_def)
  show "typeChar (determineItemType ''/a/photo.JPG'' False) = CHR ''I''"
    using determineItemType_table [of "''/a/photo.JPG''" False] e by (simp add: Let_def)
next
  have e: "toLowerCase (extname ''/readme.rst'') = ''.rst''"
    by (simp add: path_defs toLowerCase_def lowerChar_def)
  show "typeChar (determineItemType ''/readme.rst'' False) = CHR ''0''"
    using determineItemType_table [of "''/readme.rst''" False] e by (simp add: Let_def)
qed

section \<open>Properties: forbidden file types\<close>

lemma member_forbidden_cases:
  "e \<in> set forbiddenExtensions \<Longrightarrow> e = ''.exe'' \<or> e \<notin> {''.txt'', ''.md'', ''.readme'', ''.gif'',
      ''.jpg'', ''.jpeg'', ''.png'', ''.bmp'', ''.html'', ''.htm'', ''.exe'', ''.zip'', ''.tar'',
      ''.gz'', ''.pdf''}"
  by (auto simp: forbiddenExtensions_def)

lemma isFileTypeAllowed_iff:
  "isFileTypeAllowed p \<longleftrightarrow> toLowerCase (extname p) \<notin> set forbiddenExtensions"
  by (simp add: isFileTypeAllowed_def)

text \<open>
  C10 (as amended). For a path whose lower-cased extension is in the forbidden
  set, \<open>readFile\<close> never returns content: it raises an error, and so does
  \<open>handleFileRequest\<close>. The error is \<open>FILE_TYPE_FORBIDDEN\<close> whenever the stat
  succeeds and the size does not exceed the ceiling; a failed stat and an
  oversized file are reported first. The classifier tags such a path \<open>9\<close> (for
  \<open>.exe\<close>) or \<open>0\<close>, never as an error.
\<close>

theorem readFile_forbidden_extension:
  assumes "toLowerCase (extname p) \<in> set forbiddenExtensions"
  shows "(\<exists>e. readFile host opts p = Inl e)
     \<and> (\<exists>e. handleFileRequest host opts p = Inl e)
     \<and> (\<forall>st. fsStat host p = Inr st \<and> statSize st \<le> maxFileSize opts \<longrightarrow>
           readFile host opts p
             = Inl (GopherError ''File type not allowed'' FILE_TYPE_FORBIDDEN 403))
     \<and> typeChar (determineItemType p False) \<in> {CHR ''9'', CHR ''0''}
     \<and> (toLowerCase (extname p) = ''.exe'' \<longrightarrow> determineItemType p False = BINARY_FILE)"
proof -
  from assms have na: "\<not> isFileTypeAllowed p" by (simp add: isFileTypeAllowed_iff)
  have r: "\<exists>e. readFile host opts p = Inl e"
    using na by (simp add: readFile_def split: sum.splits)
  then have h: "\<exists>e. handleFileRequest host opts p = Inl e"
    by (auto simp: handleFileRequest_def)
  have f: "\<forall>st. fsStat host p = Inr st \<and> statSize st \<le> maxFileSize opts \<longrightarrow>
           readFile host opts p
             = Inl (GopherError ''File type not allowed'' FILE_TYPE_FORBIDDEN 403)"
    using na by (simp add: readFile_def getFileStats_def validateFileSize_def)
  have t: "typeChar (determineItemType p False) \<in> {CHR ''9'', CHR ''0''}"
    using member_forbidden_cases [OF assms] by (auto simp: determineItemType_def Let_def)
  have x: "toLowerCase (extname p) = ''.exe'' \<longrightarrow> determineItemType p False = BINARY_FILE"
    by (simp add: determineItemType_def Let_def)
  from r h f t x show ?thesis by blast
qed

theorem readFile_forbidden_extension_witness:
  "readFile sampleHost defaultSecurityOptions ''/srv/gopher/run.exe''
     = Inl (GopherError ''File type not allowed'' FILE_TYPE_FORBIDDEN 403)
   \<and> determineItemType ''/srv/gopher/run.exe'' False = BINARY_FILE"
proof -
  have e: "toLowerCase (extname ''/srv/gopher/run.exe'') = ''.exe''"
    by (simp add: path_defs toLowerCase_def lowerChar_def)
  then have a: "toLowerCase (extname ''/srv/gopher/run.exe'') \<in> set forbiddenExtensions"
    by (simp add: forbiddenExtensions_def)
  have s: "fsStat sampleHost ''/srv/gopher/run.exe'' = Inr \<lparr>statIsDirectory = False, statSize = 15\<rparr>
      \<and> statSize \<lparr>statIsDirectory = False, statSize = 15\<rparr> \<le> maxFileSize defaultSecurityOptions"
    by (simp add: sample_defs defaultSecurityOptions_def)
  note w = readFile_forbidden_extension [OF a, of sampleHost defaultSecurityOptions]
  have 1: "readFile sampleHost defaultSecurityOptions ''/srv/gopher/run.exe''
     = Inl (GopherError ''File type not allowed'' FILE_TYPE_FORBIDDEN 403)"
    by (rule mp [OF spec [OF conjunct1 [OF conjunct2 [OF conjunct2 [OF w]]]] s])
  have 2: "determineItemType ''/srv/gopher/run.exe'' False = BINARY_FILE"
    by (rule mp [OF conjunct2 [OF conjunct2 [OF conjunct2 [OF conjunct2 [OF w]]]] e])
  from 1 2 show ?thesis by (rule conjI)
qed

text \<open>
  An executable of twenty megabytes: the extension is forbidden, and the error
  raised is \<open>FILE_TOO_LARGE\<close>.
\<close>

theorem readFile_oversized_exe_counterexample:
  "toLowerCase (extname ''/srv/gopher/big.exe'') \<in> set forbiddenExtensions
   \<and> readFile sampleHost defaultSecurityOptions ''/srv/gopher/big.exe''
       = Inl (GopherError ''File too large'' FILE_TOO_LARGE 413)"
proof (rule conjI)
  show "toLowerCase (extname ''/srv/gopher/big.exe'') \<in> set forbiddenExtensions"
    by (simp add: path_defs toLowerCase_def lowerChar_def forbiddenExtensions_def)
  show "readFile sampleHost defaultSecurityOptions ''/srv/gopher/big.exe''
       = Inl (GopherError ''File too large'' FILE_TOO_LARGE 413)"
    by (simp add: readFile_def getFileStats_def validateFileSize_def sample_defs
        defaultSecurityOptions_def)
qed

section \<open>Properties: the rate limiter\<close>

lemma checkRateLimit_other:
  "checkRateLimit opts now a m = Inr m1 \<Longrightarrow> a \<noteq> ip \<Longrightarrow> m1 ip = m ip"
  by (auto simp: checkRateLimit_def split: option.splits if_splits)

lemma checkRateLimit_within:
  assumes "m ip = Some \<lparr>count = c, resetTime = T\<rparr>" "t \<le> T" "c < rateLimitRequests opts"
  shows "checkRateLimit opts t ip m = Inr (m(ip \<mapsto> \<lparr>count = c + 1, resetTime = T\<rparr>))"
  using assms by (simp add: checkRateLimit_def)

lemma checkRateLimit_exceeded:
  assumes "m ip = Some \<lparr>count = c, resetTime = T\<rparr>" "t \<le> T" "rateLimitRequests opts \<le> c"
  shows "checkRateLimit opts t ip m = Inl (GopherError ''Rate limit exceeded'' RATE_LIMIT_EXCEEDED 429)"
  using assms by (simp add: checkRateLimit_def)

lemma checkRateLimit_new_window:
  assumes "m ip = None \<or> (\<exists>e. m ip = Some e \<and> resetTime e < t)"
  shows "checkRateLimit opts t ip m
           = Inr (m(ip \<mapsto> \<lparr>count = 1, resetTime = t + rateLimitWindow opts\<rparr>))"
  using assms by (auto simp: checkRateLimit_def)

lemma rateLimitRun_length: "rateLimitRun opts calls m = (outs, m') \<Longrightarrow> length outs = length calls"
proof (induction calls arbitrary: m outs m')
  case Nil
  then show ?case by simp
next
  case (Cons call calls)
  obtain t a where call: "call = (t, a)" by (cases call)
  show ?case
  proof (cases "checkRateLimit opts t a m")
    case (Inl e)
    obtain os mm where r: "rateLimitRun opts calls m = (os, mm)" by (cases "rateLimitRun opts calls m")
    with Cons.prems call Inl have "outs = Some e # os" by simp
    with Cons.IH [OF r] show ?thesis by simp
  next
    case (Inr m1)
    obtain os mm where r: "rateLimitRun opts calls m1 = (os, mm)" by (cases "rateLimitRun opts calls m1")
    with Cons.prems call Inr have "outs = None # os" by simp
    with Cons.IH [OF r] show ?thesis by simp
  qed
qed

lemma rateLimitRun_within:
  assumes "m ip = Some \<lparr>count = c, resetTime = T\<rparr>"
    and "\<forall>call\<in>set (callsOf ip calls). fst call \<le> T"
    and "c + int (length (callsOf ip calls)) \<le> rateLimitRequests opts"
    and "rateLimitRun opts calls m = (outs, m')"
  shows "(\<forall>(call, out)\<in>set (zip calls outs). snd call = ip \<longrightarrow> out = None)
       \<and> m' ip = Some \<lparr>count = c + int (length (callsOf ip calls)), resetTime = T\<rparr>"
  using assms
proof (induction calls arbitrary: m c outs m')
  case Nil
  then show ?case by (simp add: callsOf_def)
next
  case (Cons call calls)
  obtain t a where call: "call = (t, a)" by (cases call)
  show ?case
  proof (cases "a = ip")
    case True
    from Cons.prems(2) call True have tT: "t \<le> T" by (simp add: callsOf_def)
    from Cons.prems(3) call True have c: "c < rateLimitRequests opts" by (simp add: callsOf_def)
    let ?m1 = "m(ip \<mapsto> \<lparr>count = c + 1, resetTime = T\<rparr>)"
    have step: "checkRateLimit opts t ip m = Inr ?m1"
      using Cons.prems(1) tT c by (rule checkRateLimit_within)
    obtain os mm where r: "rateLimitRun opts calls ?m1 = (os, mm)"
      by (cases "rateLimitRun opts calls ?m1")
    from Cons.prems(4) call True step r have o: "outs = None # os" and mm: "m' = mm" by simp_all
    have 1: "?m1 ip = Some \<lparr>count = c + 1, resetTime = T\<rparr>" by simp
    have 2: "\<forall>call\<in>set (callsOf ip calls). fst call \<le> T"
      using Cons.prems(2) by (simp add: callsOf_def)
    have 3: "c + 1 + int (length (callsOf ip calls)) \<le> rateLimitRequests opts"
      using Cons.prems(3) call True by (simp add: callsOf_def)
    from Cons.IH [OF 1 2 3 r] o mm call True show ?thesis by (simp add: callsOf_def)
  next
    case False
    have 2: "\<forall>call\<in>set (callsOf ip calls). fst call \<le> T"
      using Cons.prems(2) by (simp add: callsOf_def)
    have 3: "c + int (length (callsOf ip calls)) \<le> rateLimitRequests opts"
      using Cons.prems(3) call False by (simp add: callsOf_def)
    show ?thesis
    proof (cases "checkRateLimit opts t a m")
      case (Inl e)
      obtain os mm where r: "rateLimitRun opts calls m = (os, mm)"
        by (cases "rateLimitRun opts calls m")
      from Cons.prems(4) call Inl r have o: "outs = Some e # os" and mm: "m' = mm" by simp_all
      from Cons.IH [OF Cons.prems(1) 2 3 r] o mm call False show ?thesis
        by (simp add: callsOf_def)
    next
      case (Inr m1)
      obtain os mm where r: "rateLimitRun opts calls m1 = (os, mm)"
        by (cases "rateLimitRun opts calls m1")
      from Cons.prems(4) call Inr r have o: "outs = None # os" and mm: "m' = mm" by simp_all
      have 1: "m1 ip = Some \<lparr>count = c, resetTime = T\<rparr>"
        using checkRateLimit_other [OF Inr False] Cons.prems(1) by simp
      from Cons.IH [OF 1 2 3 r] o mm call False show ?thesis
        by (simp add: callsOf_def)
    qed
  qed
qed

text \<open>
  C2 (as amended). Let the ceiling \<open>N\<close> be at least 1, and let a call of client
  \<open>ip\<close> at time \<open>t0\<close> open a window (no entry yet, or the old window has
  elapsed). Among calls of any clients that follow, let \<open>N - 1\<close> be calls of
  \<open>ip\<close>, none later than \<open>t0 + window\<close>. Then every one of these \<open>N\<close> calls of
  \<open>ip\<close> passes and the count is \<open>N\<close>; the next call of \<open>ip\<close> inside the window
  is rejected with \<open>RATE_LIMIT_EXCEEDED\<close> and leaves the map as it was; and a
  call after the window has elapsed passes, with the count reset to 1.
\<close>

theorem rate_limit_boundary:
  assumes "1 \<le> rateLimitRequests opts"
    and "m ip = None \<or> (\<exists>e. m ip = Some e \<and> resetTime e < t0)"
    and "\<forall>call\<in>set (callsOf ip calls). fst call \<le> t0 + rateLimitWindow opts"
    and "int (length (callsOf ip calls)) = rateLimitRequests opts - 1"
    and "rateLimitRun opts ((t0, ip) # calls) m = (outs, m')"
    and "t1 \<le> t0 + rateLimitWindow opts"
    and "t0 + rateLimitWindow opts < t2"
  shows "length outs = Suc (length calls)
     \<and> (\<forall>(call, out)\<in>set (zip ((t0, ip) # calls) outs). snd call = ip \<longrightarrow> out = None)
     \<and> m' ip = Some \<lparr>count = rateLimitRequests opts, resetTime = t0 + rateLimitWindow opts\<rparr>
     \<and> rateLimitRun opts [(t1, ip)] m'
         = ([Some (GopherError ''Rate limit exceeded'' RATE_LIMIT_EXCEEDED 429)], m')
     \<and> (\<exists>m''. rateLimitRun opts [(t2, ip)] m' = ([None], m'')
           \<and> m'' ip = Some \<lparr>count = 1, resetTime = t2 + rateLimitWindow opts\<rparr>)"
proof -
  let ?T = "t0 + rateLimitWindow opts"
  let ?m1 = "m(ip \<mapsto> \<lparr>count = 1, resetTime = ?T\<rparr>)"
  have first: "checkRateLimit opts t0 ip m = Inr ?m1"
    using assms(2) by (rule checkRateLimit_new_window)
  obtain os mm where r: "rateLimitRun opts calls ?m1 = (os, mm)"
    by (cases "rateLimitRun opts calls ?m1")
  from assms(5) first r have o: "outs = None # os" and mm: "m' = mm" by simp_all
  have len: "length outs = Suc (length calls)"
    using rateLimitRun_length [OF r] o by simp
  have 1: "?m1 ip = Some \<lparr>count = 1, resetTime = ?T\<rparr>" by simp
  have 3: "1 + int (length (callsOf ip calls)) \<le> rateLimitRequests opts"
    using assms(4) by simp
  note w = rateLimitRun_within [OF 1 assms(3) 3 r]
  have pass: "\<forall>(call, out)\<in>set (zip ((t0, ip) # calls) outs). snd call = ip \<longrightarrow> out = None"
    using conjunct1 [OF w] o by simp
  have st: "m' ip = Some \<lparr>count = rateLimitRequests opts, resetTime = ?T\<rparr>"
    using conjunct2 [OF w] mm assms(4) by simp
  have rej: "checkRateLimit opts t1 ip m'
      = Inl (GopherError ''Rate limit exceeded'' RATE_LIMIT_EXCEEDED 429)"
    using st assms(6) order_refl by (rule checkRateLimit_exceeded)
  have nw: "m' ip = None \<or> (\<exists>e. m' ip = Some e \<and> resetTime e < t2)"
    using st assms(7) by simp
  have again: "checkRateLimit opts t2 ip m'
      = Inr (m'(ip \<mapsto> \<lparr>count = 1, resetTime = t2 + rateLimitWindow opts\<rparr>))"
    using nw by (rule checkRateLimit_new_window)
  have a: "rateLimitRun opts [(t1, ip)] m'
         = ([Some (GopherError ''Rate limit exceeded'' RATE_LIMIT_EXCEEDED 429)], m')"
    using rej by simp
  have b: "\<exists>m''. rateLimitRun opts [(t2, ip)] m' = ([None], m'')
           \<and> m'' ip = Some \<lparr>count = 1, resetTime = t2 + rateLimitWindow opts\<rparr>"
    using again by simp
  from len pass st a b show ?thesis by blast
qed


theorem rate_limit_boundary_witness:
  "rateLimitRun sampleOptions [(900, ''10.0.0.1'')]
       (snd (rateLimitRun sampleOptions
          [(0, ''10.0.0.1''), (10, ''10.0.0.2''), (500, ''10.0.0.1'')] Map.empty))
     = ([Some (GopherError ''Rate limit exceeded'' RATE_LIMIT_EXCEEDED 429)],
        snd (rateLimitRun sampleOptions
          [(0, ''10.0.0.1''), (10, ''10.0.0.2''), (500, ''10.0.0.1'')] Map.empty))
   \<and> fst (rateLimitRun sampleOptions
          [(0, ''10.0.0.1''), (10, ''10.0.0.2''), (500, ''10.0.0.1'')] Map.empty)
     = [None, None, None]"
proof -
  let ?calls = "[(10::int, ''10.0.0.2''), (500, ''10.0.0.1'')]"
  let ?R = "rateLimitRun sampleOptions ((0, ''10.0.0.1'') # ?calls) Map.empty"
  have h1: "1 \<le> rateLimitRequests sampleOptions"
    by (simp add: sampleOptions_def defaultSecurityOptions_def)
  have h2: "(Map.empty :: RateLimitMap) ''10.0.0.1'' = None
      \<or> (\<exists>e. (Map.empty :: RateLimitMap) ''10.0.0.1'' = Some e \<and> resetTime e < 0)"
    by simp
  have h3: "\<forall>call\<in>set (callsOf ''10.0.0.1'' ?calls). fst call \<le> 0 + rateLimitWindow sampleOptions"
    by (simp add: callsOf_def sampleOptions_def)
  have h4: "int (length (callsOf ''10.0.0.1'' ?calls)) = rateLimitRequests sampleOptions - 1"
    by (simp add: callsOf_def sampleOptions_def defaultSecurityOptions_def)
  have h5: "?R = (fst ?R, snd ?R)" by simp
  have h6: "(900::int) \<le> 0 + rateLimitWindow sampleOptions" by (simp add: sampleOptions_def)
  have h7: "0 + rateLimitWindow sampleOptions < (1200::int)" by (simp add: sampleOptions_def)
  note w = rate_limit_boundary [OF h1 h2 h3 h4 h5 h6 h7]
  have a: "rateLimitRun sampleOptions [(900, ''10.0.0.1'')] (snd ?R)
     = ([Some (GopherError ''Rate limit exceeded'' RATE_LIMIT_EXCEEDED 429)], snd ?R)"
    by (rule conjunct1 [OF conjunct2 [OF conjunct2 [OF conjunct2 [OF w]]]])
  have b: "fst ?R = [None, None, None]"
    by (simp add: checkRateLimit_def sampleOptions_def defaultSecurityOptions_def)
  from a b show ?thesis by (rule conjI)
qed

text \<open>
  With a ceiling of 0 the first request of a client, which is request \<open>N + 1\<close>,
  passes.
\<close>

theorem rate_limit_zero_ceiling_counterexample:
  "rateLimitRun (defaultSecurityOptions\<lparr>rateLimitRequests := 0\<rparr>) [(1000, ''10.0.0.1'')] Map.empty
     = ([None], [''10.0.0.1'' \<mapsto> \<lparr>count = 1, resetTime = 61000\<rparr>])"
  by (simp add: checkRateLimit_def defaultSecurityOptions_def)

section \<open>Properties: traversal and confinement\<close>

lemma suspicious_iff:
  "list_ex (\<lambda>pattern. pattern sel) suspiciousPatterns \<longleftrightarrow> containsTraversalSequence sel"
  by (simp add: suspiciousPatterns_def containsTraversalSequence_def)

lemma validatePathTraversal_cases:
  assumes "containsTraversalSequence sel"
  shows "validatePathTraversal sel =
     (if strIncludes (normalizePath sel) ''..''
      then Inl (GopherError ''Path traversal detected'' PATH_TRAVERSAL 403)
      else Inl (GopherError ''Suspicious path pattern detected'' SUSPICIOUS_PATH 403))"
  using assms by (simp add: validatePathTraversal_def suspicious_iff Let_def)

lemma resolvePath_prefix:
  "resolvePath config sel = Inr p \<Longrightarrow> \<exists>rest. p = documentRoot config @ rest"
  by (auto simp: resolvePath_def Let_def startsWith_iff split: if_splits)

text \<open>
  C1 (as amended). A selector that contains a traversal sequence is rejected
  by the security validator before the rate limit is touched, with status
  403 and the code \<open>PATH_TRAVERSAL\<close> when the normalized selector still holds
  \<open>..\<close> and \<open>SUSPICIOUS_PATH\<close> otherwise. Every path that \<open>resolvePath\<close> returns
  begins with the configured document root.
\<close>

theorem traversal_rejected_and_confined:
  "(containsTraversalSequence (selector request) \<longrightarrow>
      (\<exists>e. validatePathTraversal (selector request) = Inl e
         \<and> isRequestAllowed host now sm request clientIP = (Inl e, sm)
         \<and> statusCode e = 403
         \<and> code e = (if strIncludes (normalizePath (selector request)) ''..''
                      then PATH_TRAVERSAL else SUSPICIOUS_PATH)))
   \<and> (\<forall>p. resolvePath config sel = Inr p \<longrightarrow> (\<exists>rest. p = documentRoot config @ rest))"
proof (intro conjI impI allI)
  assume t: "containsTraversalSequence (selector request)"
  show "\<exists>e. validatePathTraversal (selector request) = Inl e
         \<and> isRequestAllowed host now sm request clientIP = (Inl e, sm)
         \<and> statusCode e = 403
         \<and> code e = (if strIncludes (normalizePath (selector request)) ''..''
                      then PATH_TRAVERSAL else SUSPICIOUS_PATH)"
    using validatePathTraversal_cases [OF t] by (simp add: isRequestAllowed_def)
next
  fix p assume "resolvePath config sel = Inr p"
  then show "\<exists>rest. p = documentRoot config @ rest" by (rule resolvePath_prefix)
qed

lemma sampleManager_dir: "managerAllowedDataDirectory sampleManager = ''/srv/gopher''"
  by (simp add: sampleManager_def newSecurityManager_def sampleHost_def path_defs)

theorem traversal_rejected_and_confined_witness:
  "isRequestAllowed sampleHost 1000 sampleManager
       \<lparr>selector = ''../../etc/passwd'', searchTerms = None\<rparr> ''10.0.0.1''
     = (Inl (GopherError ''Path traversal detected'' PATH_TRAVERSAL 403), sampleManager)
   \<and> resolvePath sampleConfig ''/docs/sub'' = Inr (documentRoot sampleConfig @ ''/docs/sub'')"
proof (rule conjI)
  let ?req = "\<lparr>selector = ''../../etc/passwd'', searchTerms = None\<rparr>"
  have h: "containsTraversalSequence (selector ?req)"
    by (simp add: containsTraversalSequence_def)
  have v: "validatePathTraversal (selector ?req)
      = Inl (GopherError ''Path traversal detected'' PATH_TRAVERSAL 403)"
    by (simp add: validatePathTraversal_def path_defs)
  note w = traversal_rejected_and_confined [where request = ?req and host = sampleHost
      and now = 1000 and sm = sampleManager and clientIP = "''10.0.0.1''"]
  from mp [OF conjunct1 [OF w] h]
  obtain e where "validatePathTraversal (selector ?req) = Inl e"
    and "isRequestAllowed sampleHost 1000 sampleManager ?req ''10.0.0.1'' = (Inl e, sampleManager)"
    by blast
  with v show "isRequestAllowed sampleHost 1000 sampleManager ?req ''10.0.0.1''
     = (Inl (GopherError ''Path traversal detected'' PATH_TRAVERSAL 403), sampleManager)"
    by simp
next
  have r: "resolvePath sampleConfig ''/docs/sub'' = Inr ''/srv/gopher/docs/sub''"
    by (simp add: resolvePath_def sampleConfig_def path_defs)
  then show "resolvePath sampleConfig ''/docs/sub'' = Inr (documentRoot sampleConfig @ ''/docs/sub'')"
    by (simp add: sampleConfig_def)
qed

text \<open>
  A percent-encoded traversal is rejected by the validator with the code
  \<open>SUSPICIOUS_PATH\<close>, and \<open>ProtocolHandler.handleRequest\<close> on its own resolves it
  inside the root and reports a missing file.
\<close>

theorem encoded_traversal_counterexample:
  "containsTraversalSequence ''%2e%2e%2fetc''
   \<and> fst (isRequestAllowed sampleHost 1000 sampleManager
            \<lparr>selector = ''%2e%2e%2fetc'', searchTerms = None\<rparr> ''10.0.0.1'')
       = Inl (GopherError ''Suspicious path pattern detected'' SUSPICIOUS_PATH 403)
   \<and> handleRequest sampleHost sampleConfig defaultSecurityOptions
         \<lparr>selector = ''%2e%2e%2fetc'', searchTerms = None\<rparr>
       = Inl (GopherError ''File not found'' FILE_NOT_FOUND 404)"
proof (intro conjI)
  show "containsTraversalSequence ''%2e%2e%2fetc''"
    by (simp add: containsTraversalSequence_def toLowerCase_def lowerChar_def)
  show "fst (isRequestAllowed sampleHost 1000 sampleManager
            \<lparr>selector = ''%2e%2e%2fetc'', searchTerms = None\<rparr> ''10.0.0.1'')
       = Inl (GopherError ''Suspicious path pattern detected'' SUSPICIOUS_PATH 403)"
    by (simp add: isRequestAllowed_def validatePathTraversal_def path_defs suspiciousPatterns_def
        toLowerCase_def lowerChar_def)
  show "handleRequest sampleHost sampleConfig defaultSecurityOptions
         \<lparr>selector = ''%2e%2e%2fetc'', searchTerms = None\<rparr>
       = Inl (GopherError ''File not found'' FILE_NOT_FOUND 404)"
    by (simp add: handleRequest_def validateRequest_def resolvePath_def getFileStats_def
        sample_defs path_defs)
qed

section \<open>Properties: search\<close>

text \<open>
  The filter of \<open>handleSearchRequest\<close>, written out: an entry of the listing
  passes when its lower-cased label or selector holds the lower-cased search
  string as one substring.
\<close>

lemma handleDirectoryRequest_search:
  assumes "getDirectoryListing host config dirPath = Inr allItems"
    and "terms \<noteq> []"
  shows "handleDirectoryRequest host config dirPath \<lparr>selector = sel, searchTerms = Some terms\<rparr>
       = Inr \<lparr>data = Text [], isDirectory = True,
              items = Some (filter (\<lambda>item.
                  (\<exists>pre post. toLowerCase (displayString item) = pre @ toLowerCase terms @ post)
                \<or> (\<exists>pre post. toLowerCase (itemSelector item) = pre @ toLowerCase terms @ post))
                allItems)\<rparr>"
  using assms by (simp add: handleDirectoryRequest_def handleSearchRequest_def strIncludes_iff)

lemma listing_docs:
  "getDirectoryListing sampleHost sampleConfig ''/srv/gopher/docs''
     = Inr [\<lparr>itemType = DIRECTORY, displayString = ''-old/'', itemSelector = ''/docs/-old'',
              itemHostname = ''localhost'', itemPort = 70\<rparr>,
            \<lparr>itemType = DIRECTORY, displayString = ''..'', itemSelector = ''/'',
              itemHostname = ''localhost'', itemPort = 70\<rparr>,
            \<lparr>itemType = DIRECTORY, displayString = ''sub/'', itemSelector = ''/docs/sub'',
              itemHostname = ''localhost'', itemPort = 70\<rparr>,
            \<lparr>itemType = FILE, displayString = ''other.txt'', itemSelector = ''/docs/other.txt'',
              itemHostname = ''localhost'', itemPort = 70\<rparr>,
            \<lparr>itemType = FILE, displayString = ''searchable.txt'',
              itemSelector = ''/docs/searchable.txt'',
              itemHostname = ''localhost'', itemPort = 70\<rparr>]"
  by (simp add: getDirectoryListing_def sample_defs entryItem_def parentItem_def
      getParentSelector_def path_defs determineItemType_def formatDisplayString_def
      backslashesToSlashes_def sortBy_def compareItems_def toLowerCase_def lowerChar_def)

lemma search_docs:
  "handleRequest sampleHost sampleConfig defaultSecurityOptions
       \<lparr>selector = ''/docs'', searchTerms = Some ''search''\<rparr>
     = Inr \<lparr>data = Text [], isDirectory = True,
            items = Some [\<lparr>itemType = FILE, displayString = ''searchable.txt'',
                           itemSelector = ''/docs/searchable.txt'',
                           itemHostname = ''localhost'', itemPort = 70\<rparr>]\<rparr>"
proof -
  have r: "resolvePath sampleConfig ''/docs'' = Inr ''/srv/gopher/docs''"
    by (simp add: resolvePath_def sampleConfig_def path_defs)
  have s: "getFileStats sampleHost ''/srv/gopher/docs'' = Inr \<lparr>statIsDirectory = True, statSize = 4096\<rparr>"
    by (simp add: getFileStats_def sample_defs)
  show ?thesis
    by (simp add: handleRequest_def validateRequest_def r s handleDirectoryRequest_def
        handleSearchRequest_def listing_docs toLowerCase_def lowerChar_def)
qed

lemma search_two_terms_docs:
  "handleRequest sampleHost sampleConfig defaultSecurityOptions
       \<lparr>selector = ''/docs'', searchTerms = Some ''search txt''\<rparr>
     = Inr \<lparr>data = Text [], isDirectory = True, items = Some []\<rparr>"
proof -
  have r: "resolvePath sampleConfig ''/docs'' = Inr ''/srv/gopher/docs''"
    by (simp add: resolvePath_def sampleConfig_def path_defs)
  have s: "getFileStats sampleHost ''/srv/gopher/docs'' = Inr \<lparr>statIsDirectory = True, statSize = 4096\<rparr>"
    by (simp add: getFileStats_def sample_defs)
  show ?thesis
    by (simp add: handleRequest_def validateRequest_def r s handleDirectoryRequest_def
        handleSearchRequest_def listing_docs toLowerCase_def lowerChar_def)
qed

text \<open>
  C3. The claim: a search in a directory returns exactly the entries whose
  label or selector contains every search term, case ignored, and keeps the
  go-up entry whether it matches or not. The code on the directory \<open>docs\<close>
  of the sample host: the listing holds the go-up entry and the entries of
  \<open>searchable.txt\<close> and \<open>other.txt\<close>; the search for \<open>search\<close> returns the
  entry of \<open>searchable.txt\<close> without the go-up entry; and the search for the
  two terms \<open>search txt\<close>, both of which the label \<open>searchable.txt\<close> contains,
  returns no entry at all.
\<close>

theorem search_on_docs_drops_parent_and_joins_terms:
  "getDirectoryListing sampleHost sampleConfig ''/srv/gopher/docs''
     = Inr [\<lparr>itemType = DIRECTORY, displayString = ''-old/'', itemSelector = ''/docs/-old'',
              itemHostname = ''localhost'', itemPort = 70\<rparr>,
            \<lparr>itemType = DIRECTORY, displayString = ''..'', itemSelector = ''/'',
              itemHostname = ''localhost'', itemPort = 70\<rparr>,
            \<lparr>itemType = DIRECTORY, displayString = ''sub/'', itemSelector = ''/docs/sub'',
              itemHostname = ''localhost'', itemPort = 70\<rparr>,
            \<lparr>itemType = FILE, displayString = ''other.txt'', itemSelector = ''/docs/other.txt'',
              itemHostname = ''localhost'', itemPort = 70\<rparr>,
            \<lparr>itemType = FILE, displayString = ''searchable.txt'',
              itemSelector = ''/docs/searchable.txt'',
              itemHostname = ''localhost'', itemPort = 70\<rparr>]
   \<and> handleRequest sampleHost sampleConfig defaultSecurityOptions
       \<lparr>selector = ''/docs'', searchTerms = Some ''search''\<rparr>
     = Inr \<lparr>data = Text [], isDirectory = True,
            items = Some [\<lparr>itemType = FILE, displayString = ''searchable.txt'',
                           itemSelector = ''/docs/searchable.txt'',
                           itemHostname = ''localhost'', itemPort = 70\<rparr>]\<rparr>
   \<and> handleRequest sampleHost sampleConfig defaultSecurityOptions
       \<lparr>selector = ''/docs'', searchTerms = Some ''search txt''\<rparr>
     = Inr \<lparr>data = Text [], isDirectory = True, items = Some []\<rparr>"
  using listing_docs search_docs search_two_terms_docs by (intro conjI)

section \<open>Properties: the order of a listing\<close>

lemma set_insertBy: "set (insertBy cmp x ys) = insert x (set ys)"
  by (induction ys) auto

lemma set_sortBy: "set (sortBy cmp xs) = set xs"
  by (induction xs) (auto simp: sortBy_def set_insertBy)

lemma length_insertBy: "length (insertBy cmp x ys) = Suc (length ys)"
  by (induction ys) auto

lemma length_sortBy: "length (sortBy cmp xs) = length xs"
  by (induction xs) (auto simp: sortBy_def length_insertBy)

lemma sortBy_Cons: "sortBy cmp (x # xs) = insertBy cmp x (sortBy cmp xs)"
  by (simp add: sortBy_def)

lemma sorted_insertBy:
  assumes total: "\<And>a b. cmp a b \<le> 0 \<or> cmp b a \<le> 0"
    and trans: "\<And>a b c. cmp a b \<le> 0 \<Longrightarrow> cmp b c \<le> 0 \<Longrightarrow> cmp a c \<le> 0"
    and "sorted_wrt (\<lambda>a b. cmp a b \<le> 0) ys"
  shows "sorted_wrt (\<lambda>a b. cmp a b \<le> 0) (insertBy cmp x ys)"
  using assms(3)
proof (induction ys)
  case Nil
  then show ?case by simp
next
  case (Cons y ys)
  show ?case
  proof (cases "cmp x y \<le> 0")
    case True
    have "\<forall>z\<in>set ys. cmp x z \<le> 0"
    proof
      fix z assume "z \<in> set ys"
      with Cons.prems have "cmp y z \<le> 0" by simp
      with True show "cmp x z \<le> 0" by (rule trans)
    qed
    with True Cons.prems show ?thesis by simp
  next
    case False
    with total [of x y] have yx: "cmp y x \<le> 0" by simp
    from Cons.prems have "sorted_wrt (\<lambda>a b. cmp a b \<le> 0) ys" by simp
    then have "sorted_wrt (\<lambda>a b. cmp a b \<le> 0) (insertBy cmp x ys)" by (rule Cons.IH)
    moreover from Cons.prems yx have "\<forall>z\<in>set (insertBy cmp x ys). cmp y z \<le> 0"
      by (simp add: set_insertBy)
    ultimately show ?thesis using False by simp
  qed
qed

lemma sorted_sortBy:
  assumes total: "\<And>a b. cmp a b \<le> 0 \<or> cmp b a \<le> 0"
    and trans: "\<And>a b c. cmp a b \<le> 0 \<Longrightarrow> cmp b c \<le> 0 \<Longrightarrow> cmp a c \<le> 0"
  shows "sorted_wrt (\<lambda>a b. cmp a b \<le> 0) (sortBy cmp xs)"
proof (induction xs)
  case Nil
  then show ?case by (simp add: sortBy_def)
next
  case (Cons x xs)
  have "sorted_wrt (\<lambda>a b. cmp a b \<le> 0) (insertBy cmp x (sortBy cmp xs))"
  proof (rule sorted_insertBy)
    show "\<And>a b. cmp a b \<le> 0 \<or> cmp b a \<le> 0" by (rule total)
    show "\<And>a b c. cmp a b \<le> 0 \<Longrightarrow> cmp b c \<le> 0 \<Longrightarrow> cmp a c \<le> 0" by (rule trans)
    show "sorted_wrt (\<lambda>a b. cmp a b \<le> 0) (sortBy cmp xs)" by (rule Cons.IH)
  qed
  then show ?case by (simp only: sortBy_Cons)
qed

lemma collation_total: "isCollation lc \<Longrightarrow> lc a b \<le> 0 \<or> lc b a \<le> 0"
  unfolding isCollation_def by (erule conjE) (erule allE, erule allE, assumption)

lemma collation_trans: "isCollation lc \<Longrightarrow> lc a b \<le> 0 \<Longrightarrow> lc b c \<le> 0 \<Longrightarrow> lc a c \<le> 0"
  unfolding isCollation_def by blast

lemma compareItems_total:
  assumes "isCollation (localeCompare host)"
  shows "compareItems host a b \<le> 0 \<or> compareItems host b a \<le> 0"
  using collation_total [OF assms, of "displayString a" "displayString b"]
  by (simp add: compareItems_def)

lemma compareItems_trans:
  assumes "isCollation (localeCompare host)"
    and "compareItems host a b \<le> 0" and "compareItems host b c \<le> 0"
  shows "compareItems host a c \<le> 0"
proof -
  note tr = collation_trans [OF assms(1), of "displayString a" "displayString b" "displayString c"]
  show ?thesis
  proof (cases "itemType a = DIRECTORY")
    case da: True
    show ?thesis
    proof (cases "itemType c = DIRECTORY")
      case dc: True
      show ?thesis
      proof (cases "itemType b = DIRECTORY")
        case True
        with da dc assms(2,3) tr show ?thesis by (simp add: compareItems_def)
      next
        case False
        with dc assms(3) show ?thesis by (simp add: compareItems_def)
      qed
    next
      case False
      with da show ?thesis by (simp add: compareItems_def)
    qed
  next
    case na: False
    show ?thesis
    proof (cases "itemType b = DIRECTORY")
      case True
      with na assms(2) show ?thesis by (simp add: compareItems_def)
    next
      case nb: False
      show ?thesis
      proof (cases "itemType c = DIRECTORY")
        case True
        with nb assms(3) show ?thesis by (simp add: compareItems_def)
      next
        case False
        with na nb assms(2,3) tr show ?thesis by (simp add: compareItems_def)
      qed
    qed
  qed
qed

lemma listing_is_sorted_pushed:
  "getDirectoryListing host config dirPath = Inr its
     \<Longrightarrow> \<exists>pushed. its = sortBy (compareItems host) pushed"
  by (auto simp: getDirectoryListing_def Let_def split: option.splits)

lemma listing_sorted:
  assumes "isCollation (localeCompare host)"
    and "getDirectoryListing host config dirPath = Inr its"
  shows "sorted_wrt (\<lambda>a b. compareItems host a b \<le> 0) its"
proof -
  from listing_is_sorted_pushed [OF assms(2)]
  obtain pushed where its: "its = sortBy (compareItems host) pushed" ..
  have "sorted_wrt (\<lambda>a b. compareItems host a b \<le> 0) (sortBy (compareItems host) pushed)"
  proof (rule sorted_sortBy)
    show "\<And>a b. compareItems host a b \<le> 0 \<or> compareItems host b a \<le> 0"
      by (rule compareItems_total [OF assms(1)])
    show "\<And>a b c. compareItems host a b \<le> 0 \<Longrightarrow> compareItems host b c \<le> 0
        \<Longrightarrow> compareItems host a c \<le> 0"
      by (rule compareItems_trans [OF assms(1)])
  qed
  with its show ?thesis by simp
qed

text \<open>
  C6. Under a collation, in every listing an entry tagged directory never
  comes after an entry not tagged directory, and two entries of the same
  group stand in the order of their display labels.
\<close>

theorem listing_directories_first_then_by_label:
  assumes "isCollation (localeCompare host)"
    and "getDirectoryListing host config dirPath = Inr its"
    and "i < j" and "j < length its"
  shows "(itemType (its ! j) = DIRECTORY \<longrightarrow> itemType (its ! i) = DIRECTORY)
     \<and> ((itemType (its ! i) = DIRECTORY) = (itemType (its ! j) = DIRECTORY) \<longrightarrow>
          localeCompare host (displayString (its ! i)) (displayString (its ! j)) \<le> 0)"
proof -
  have c: "compareItems host (its ! i) (its ! j) \<le> 0"
    using listing_sorted [OF assms(1,2)] assms(3,4) by (simp add: sorted_wrt_iff_nth_less)
  show ?thesis
  proof (cases "itemType (its ! i) = DIRECTORY")
    case di: True
    show ?thesis
    proof (cases "itemType (its ! j) = DIRECTORY")
      case True
      with di c show ?thesis by (simp add: compareItems_def)
    next
      case False
      with di show ?thesis by simp
    qed
  next
    case ni: False
    show ?thesis
    proof (cases "itemType (its ! j) = DIRECTORY")
      case True
      with ni c show ?thesis by (simp add: compareItems_def)
    next
      case False
      with ni c show ?thesis by (simp add: compareItems_def)
    qed
  qed
qed


lemma codeUnitCompare_total: "codeUnitCompare a b \<le> 0 \<or> codeUnitCompare b a \<le> 0"
  by (induction a b rule: codeUnitCompare.induct) auto

lemma codeUnitCompare_trans:
  "codeUnitCompare a b \<le> 0 \<Longrightarrow> codeUnitCompare b c \<le> 0 \<Longrightarrow> codeUnitCompare a c \<le> 0"
proof (induction a arbitrary: b c)
  case Nil
  then show ?case by (cases c) auto
next
  case (Cons x a)
  from Cons.prems(1) obtain y b' where b: "b = y # b'" by (cases b) auto
  from Cons.prems(2) b obtain z c' where c: "c = z # c'" by (cases c) auto
  from Cons.prems(1) b have xy: "(of_char x :: nat) \<le> of_char y" by (auto split: if_splits)
  from Cons.prems(2) b c have yz: "(of_char y :: nat) \<le> of_char z" by (auto split: if_splits)
  show ?case
  proof (cases "(of_char x :: nat) < of_char z")
    case True
    with c show ?thesis by simp
  next
    case False
    with xy yz have n1: "(of_char x :: nat) = of_char y" and n2: "(of_char y :: nat) = of_char z"
      by linarith+
    from n1 have e1: "x = y" by simp
    from n2 have e2: "y = z" by simp
    from Cons.prems(1) b e1 have 1: "codeUnitCompare a b' \<le> 0" by simp
    from Cons.prems(2) b c e2 have 2: "codeUnitCompare b' c' \<le> 0" by simp
    from Cons.IH [OF 1 2] c e1 e2 show ?thesis by simp
  qed
qed

lemma isCollation_codeUnitCompare: "isCollation codeUnitCompare"
  unfolding isCollation_def using codeUnitCompare_total codeUnitCompare_trans by blast

lemma listing_docs_eq:
  "getDirectoryListing sampleHost sampleConfig ''/srv/gopher/docs'' = Inr docsListing"
  by (simp add: listing_docs docsListing_def)

theorem listing_directories_first_then_by_label_witness:
  "itemType (docsListing ! 1) = DIRECTORY
   \<and> localeCompare sampleHost (displayString (docsListing ! 0)) (displayString (docsListing ! 2)) \<le> 0
   \<and> localeCompare sampleHost (displayString (docsListing ! 3)) (displayString (docsListing ! 4)) \<le> 0"
proof -
  have c: "isCollation (localeCompare sampleHost)"
    by (simp add: sampleHost_def isCollation_codeUnitCompare)
  have l: "length docsListing = 5" by (simp add: docsListing_def)
  have j: "itemType (docsListing ! 2) = DIRECTORY" by (simp add: docsListing_def)
  have a: "itemType (docsListing ! 1) = DIRECTORY"
    using listing_directories_first_then_by_label [OF c listing_docs_eq, of 1 2] l j by simp
  have t: "(itemType (docsListing ! 0) = DIRECTORY) = (itemType (docsListing ! 2) = DIRECTORY)"
    "(itemType (docsListing ! 3) = DIRECTORY) = (itemType (docsListing ! 4) = DIRECTORY)"
    by (simp_all add: docsListing_def)
  have b: "localeCompare sampleHost (displayString (docsListing ! 0)) (displayString (docsListing ! 2)) \<le> 0"
    using listing_directories_first_then_by_label [OF c listing_docs_eq, of 0 2] l t(1) by simp
  have d: "localeCompare sampleHost (displayString (docsListing ! 3)) (displayString (docsListing ! 4)) \<le> 0"
    using listing_directories_first_then_by_label [OF c listing_docs_eq, of 3 4] l t(2) by simp
  from a b d show ?thesis by (intro conjI)
qed

section \<open>Properties: the terminator\<close>

lemma endsWith_append: "endsWith (a @ p) p"
  by (simp add: endsWith_def startsWith_iff)

lemma splitCRLF_not_Nil: "splitCRLF s \<noteq> []"
  by (induction s rule: splitCRLF.induct) (auto split: list.splits)

lemma splitCRLF_line:
  "CHR 0x0A \<notin> set l \<Longrightarrow> splitCRLF (l @ CRLF @ rest) = l # splitCRLF rest"
proof (induction l)
  case Nil
  then show ?case by (simp add: CRLF_def)
next
  case (Cons c l)
  then have ih: "splitCRLF (l @ CRLF @ rest) = l # splitCRLF rest" by simp
  obtain d ds where t: "l @ CRLF @ rest = d # ds" by (cases "l @ CRLF @ rest") (auto simp: CRLF_def)
  have "d \<noteq> CHR 0x0A"
  proof (cases l)
    case Nil
    with t show ?thesis by (auto simp: CRLF_def)
  next
    case (Cons x xs)
    with t Cons.prems show ?thesis by auto
  qed
  then have "splitCRLF (c # d # ds) = (case splitCRLF (d # ds) of l # ls \<Rightarrow> (c # l) # ls | [] \<Rightarrow> [[c]])"
    by simp
  with t ih show ?case by simp
qed

lemma splitCRLF_terminator: "splitCRLF (''.'' @ CRLF) = [''.'', []]"
  by (simp add: CRLF_def)

lemma typeChar_not_LF: "typeChar t \<noteq> CHR 0x0A"
  by (cases t) simp_all

lemma digitChar_not_LF: "d < 10 \<Longrightarrow> digitChar d \<noteq> CHR 0x0A"
proof -
  assume "d < 10"
  then have "d \<in> {0, 1, 2, 3, 4, 5, 6, 7, 8, 9}" by auto
  then show ?thesis by (auto simp: digitChar_def)
qed

lemma showNat_not_LF: "CHR 0x0A \<notin> set (showNat n)"
proof (induction n rule: showNat.induct)
  case (1 n)
  show ?case
  proof (cases "n < 10")
    case True
    then show ?thesis using digitChar_not_LF [of n] by (simp add: showNat.simps [of n])
  next
    case False
    have "n mod 10 < 10" by simp
    then have "digitChar (n mod 10) \<noteq> CHR 0x0A" by (rule digitChar_not_LF)
    with False 1 show ?thesis by (simp add: showNat.simps [of n])
  qed
qed

text \<open>An item line without its CRLF.\<close>

lemma itemLine_body:
  "itemLine item = (typeChar (itemType item) # displayString item @ [TAB] @ itemSelector item
      @ [TAB] @ itemHostname item @ [TAB] @ showNat (itemPort item)) @ CRLF"
  by (simp add: itemLine_def)

lemma splitCRLF_itemLine:
  assumes "lineFeedFree item"
  shows "\<exists>l. l \<noteq> ''.'' \<and> splitCRLF (itemLine item @ rest) = l # splitCRLF rest"
proof -
  let ?l = "typeChar (itemType item) # displayString item @ [TAB] @ itemSelector item
      @ [TAB] @ itemHostname item @ [TAB] @ showNat (itemPort item)"
  have nl: "CHR 0x0A \<notin> set ?l"
    using assms typeChar_not_LF [of "itemType item"] showNat_not_LF [of "itemPort item"]
    by (simp add: lineFeedFree_def TAB_def)
  have "splitCRLF (?l @ CRLF @ rest) = ?l # splitCRLF rest"
    using nl by (rule splitCRLF_line)
  moreover have "?l \<noteq> ''.''" by simp
  ultimately show ?thesis by (simp add: itemLine_body)
qed

lemma terminatorLines_listing:
  assumes "\<forall>item\<in>set its. lineFeedFree item"
  shows "terminatorLines (concat (map itemLine its) @ rest) = terminatorLines rest"
  using assms
proof (induction its)
  case Nil
  then show ?case by simp
next
  case (Cons item its)
  from Cons.prems have "lineFeedFree item" by simp
  from splitCRLF_itemLine [OF this, of "concat (map itemLine its) @ rest"]
  obtain l where l: "l \<noteq> ''.''"
    and s: "splitCRLF (itemLine item @ concat (map itemLine its) @ rest)
        = l # splitCRLF (concat (map itemLine its) @ rest)"
    by blast
  from Cons have ih: "terminatorLines (concat (map itemLine its) @ rest) = terminatorLines rest"
    by simp
  from l s ih show ?case by (simp add: terminatorLines_def)
qed

lemma terminatorLines_terminator: "terminatorLines (''.'' @ CRLF) = 1"
  by (simp add: terminatorLines_def CRLF_def)

lemma terminatorLines_error:
  assumes "CHR 0x0A \<notin> set msg"
  shows "terminatorLines (''3'' @ msg @ errorTail @ ''.'' @ CRLF) = 1"
proof -
  define l where "l = ''3'' @ msg @ [TAB] @ ''error'' @ [TAB] @ ''error'' @ [TAB] @ ''70''"
  have nl: "CHR 0x0A \<notin> set l" using assms by (simp add: l_def TAB_def)
  have sp: "splitCRLF (l @ CRLF @ (''.'' @ CRLF)) = l # splitCRLF (''.'' @ CRLF)"
    using nl by (rule splitCRLF_line)
  have ne: "l \<noteq> ''.''" by (simp add: l_def)
  have eq: "''3'' @ msg @ errorTail @ ''.'' @ CRLF = l @ CRLF @ (''.'' @ CRLF)"
    by (simp add: errorTail_def l_def)
  have "terminatorLines (l @ CRLF @ (''.'' @ CRLF)) = terminatorLines (''.'' @ CRLF)"
    unfolding terminatorLines_def sp using ne by simp
  then show ?thesis unfolding eq by (simp only: terminatorLines_terminator)
qed

lemma terminatorLines_handleRequestError:
  assumes "CHR 0x0A \<notin> set (message e)"
  shows "terminatorLines (handleRequestError (Gopher e)) = 1"
proof -
  have "CHR 0x0A \<notin> set (''Error: '' @ message e)" using assms by simp
  from terminatorLines_error [OF this] show ?thesis by (simp add: handleRequestError_def)
qed


text \<open>The message of every error the handlers raise is a fixed text without line feed.\<close>

lemma validatePathTraversal_msg:
  "validatePathTraversal sel = Inl e \<Longrightarrow> CHR 0x0A \<notin> set (message e)"
  by (auto simp: validatePathTraversal_def Let_def split: if_splits)

lemma validateAllowedPath_msg:
  "validateAllowedPath host sm sel = Inl e \<Longrightarrow> CHR 0x0A \<notin> set (message e)"
  by (auto simp: validateAllowedPath_def Let_def split: if_splits)

lemma checkRateLimit_msg:
  "checkRateLimit opts now ip m = Inl e \<Longrightarrow> CHR 0x0A \<notin> set (message e)"
  by (auto simp: checkRateLimit_def split: option.splits if_splits)

lemma validateSelector_msg:
  "validateSelector sel = Inl e \<Longrightarrow> CHR 0x0A \<notin> set (message e)"
  by (auto simp: validateSelector_def split: if_splits)

lemma isRequestAllowed_msg:
  assumes "isRequestAllowed host now sm request ip = (Inl e, sm')"
  shows "CHR 0x0A \<notin> set (message e)"
proof (cases "validatePathTraversal (selector request)")
  case (Inl a)
  with assms have "e = a" by (simp add: isRequestAllowed_def)
  with Inl show ?thesis by (simp add: validatePathTraversal_msg)
next
  case v1: (Inr u1)
  show ?thesis
  proof (cases "validateAllowedPath host sm (selector request)")
    case (Inl a)
    with assms v1 have "e = a" by (simp add: isRequestAllowed_def)
    with Inl show ?thesis by (simp add: validateAllowedPath_msg)
  next
    case v2: (Inr u2)
    show ?thesis
    proof (cases "checkRateLimit (options sm) now ip (rateLimitMap sm)")
      case (Inl a)
      with assms v1 v2 have "e = a" by (simp add: isRequestAllowed_def)
      with Inl show ?thesis by (simp add: checkRateLimit_msg)
    next
      case v3: (Inr m1)
      show ?thesis
      proof (cases "validateSelector (selector request)")
        case (Inl a)
        with assms v1 v2 v3 have "e = a" by (simp add: isRequestAllowed_def)
        with Inl show ?thesis by (simp add: validateSelector_msg)
      next
        case (Inr u4)
        with assms v1 v2 v3 show ?thesis by (simp add: isRequestAllowed_def)
      qed
    qed
  qed
qed

lemma getFileStats_msg:
  "getFileStats host p = Inl e \<Longrightarrow> CHR 0x0A \<notin> set (message e)"
  by (auto simp: getFileStats_def split: sum.splits FsErrno.splits)

lemma validateFileSize_msg:
  "validateFileSize opts n = Inl e \<Longrightarrow> CHR 0x0A \<notin> set (message e)"
  by (auto simp: validateFileSize_def split: if_splits)

lemma readFile_msg:
  assumes "readFile host opts p = Inl e"
  shows "CHR 0x0A \<notin> set (message e)"
proof (cases "getFileStats host p")
  case (Inl a)
  with assms have "e = a" by (simp add: readFile_def)
  with Inl show ?thesis by (simp add: getFileStats_msg)
next
  case s: (Inr stats)
  show ?thesis
  proof (cases "validateFileSize opts (statSize stats)")
    case (Inl a)
    with assms s have "e = a" by (simp add: readFile_def)
    with Inl show ?thesis by (simp add: validateFileSize_msg)
  next
    case (Inr u)
    with assms s show ?thesis
      by (auto simp: readFile_def Let_def split: if_splits option.splits)
  qed
qed

lemma getDirectoryListing_msg:
  "getDirectoryListing host config p = Inl e \<Longrightarrow> CHR 0x0A \<notin> set (message e)"
  by (auto simp: getDirectoryListing_def Let_def split: option.splits)

lemma handleSearchRequest_msg:
  "handleSearchRequest host config p terms = Inl e \<Longrightarrow> CHR 0x0A \<notin> set (message e)"
  by (auto simp: handleSearchRequest_def Let_def getDirectoryListing_msg split: sum.splits)

lemma handleDirectoryRequest_msg:
  "handleDirectoryRequest host config p request = Inl e \<Longrightarrow> CHR 0x0A \<notin> set (message e)"
  by (auto simp: handleDirectoryRequest_def getDirectoryListing_msg handleSearchRequest_msg
      split: sum.splits option.splits if_splits)

lemma handleFileRequest_msg:
  "handleFileRequest host opts p = Inl e \<Longrightarrow> CHR 0x0A \<notin> set (message e)"
  by (auto simp: handleFileRequest_def readFile_msg split: sum.splits)

lemma validateRequest_msg:
  "validateRequest request = Inl e \<Longrightarrow> CHR 0x0A \<notin> set (message e)"
  by (auto simp: validateRequest_def split: if_splits)

lemma resolvePath_msg:
  "resolvePath config sel = Inl e \<Longrightarrow> CHR 0x0A \<notin> set (message e)"
  by (auto simp: resolvePath_def Let_def split: if_splits)

lemma handleRequest_msg:
  assumes "handleRequest host config opts request = Inl e"
  shows "CHR 0x0A \<notin> set (message e)"
proof (cases "validateRequest request")
  case (Inl a)
  with assms have "e = a" by (simp add: handleRequest_def)
  with Inl show ?thesis by (simp add: validateRequest_msg)
next
  case v: (Inr u)
  define sel where "sel = (if selector request = [] \<or> selector request = ''/'' then ''/''
                     else selector request)"
  show ?thesis
  proof (cases "resolvePath config sel")
    case (Inl a)
    with assms v have "e = a" by (simp add: handleRequest_def sel_def)
    with Inl show ?thesis by (simp add: resolvePath_msg)
  next
    case r: (Inr resolvedPath)
    show ?thesis
    proof (cases "getFileStats host resolvedPath")
      case (Inl a)
      with assms v r have "e = a" by (simp add: handleRequest_def sel_def)
      with Inl show ?thesis by (simp add: getFileStats_msg)
    next
      case (Inr stats)
      with assms v r have
        "(if statIsDirectory stats
          then handleDirectoryRequest host config resolvedPath request
          else handleFileRequest host opts resolvedPath) = Inl e"
        by (simp add: handleRequest_def sel_def)
      then show ?thesis
        by (auto simp: handleDirectoryRequest_msg handleFileRequest_msg split: if_splits)
    qed
  qed
qed

text \<open>
  C7 (as amended). Every response the connection handler writes ends with a
  full stop and CRLF. The response is an error line, a listing or a payload.
  An error response holds exactly one terminator line. A listing response
  holds exactly one terminator line when no label, selector or host name in
  it holds a line feed. A payload is written as it is, followed by the
  terminator; nothing in it is escaped.
\<close>

theorem response_ends_with_terminator:
  "\<exists>out. fst (serverHandleRequest host now config fsOpts sm rawData remoteAddress) = out
     \<and> endsWith out (''.'' @ CRLF)
     \<and> ((\<exists>e. out = handleRequestError (Gopher e) \<and> terminatorLines out = 1)
        \<or> (\<exists>response its.
              handleRequest host config fsOpts (serverParseRequest rawData) = Inr response
            \<and> isDirectory response \<and> items response = Some its
            \<and> out = concat (map itemLine its) @ ''.'' @ CRLF
            \<and> ((\<forall>item\<in>set its. lineFeedFree item) \<longrightarrow> terminatorLines out = 1))
        \<or> (\<exists>response.
              handleRequest host config fsOpts (serverParseRequest rawData) = Inr response
            \<and> out = payloadBytes (data response) @ ''.'' @ CRLF))"
proof -
  let ?out = "fst (serverHandleRequest host now config fsOpts sm rawData remoteAddress)"
  have err: "endsWith (handleRequestError (Gopher e)) (''.'' @ CRLF)" for e
  proof -
    have "handleRequestError (Gopher e) = (''3Error: '' @ message e @ errorTail) @ (''.'' @ CRLF)"
      by (simp add: handleRequestError_def)
    then show ?thesis by (simp only: endsWith_append)
  qed
  have errcase: "?thesis" if "?out = handleRequestError (Gopher e)" "CHR 0x0A \<notin> set (message e)" for e
    using that err [of e] terminatorLines_handleRequestError [of e] by metis
  show ?thesis
  proof (cases "length rawData > maxRequestSize config")
    case True
    then have "?out = handleRequestError (Gopher (GopherError ''Request too large'' REQUEST_TOO_LARGE 413))"
      by (simp add: serverHandleRequest_def)
    then show ?thesis by (rule errcase) simp
  next
    case small: False
    obtain r sm' where a: "isRequestAllowed host now sm (serverParseRequest rawData) remoteAddress = (r, sm')"
      by (cases "isRequestAllowed host now sm (serverParseRequest rawData) remoteAddress")
    show ?thesis
    proof (cases r)
      case (Inl e)
      with small a have "?out = handleRequestError (Gopher e)"
        by (simp add: serverHandleRequest_def)
      moreover from a Inl have "CHR 0x0A \<notin> set (message e)"
        using isRequestAllowed_msg by blast
      ultimately show ?thesis by (rule errcase)
    next
      case (Inr allowed)
      show ?thesis
      proof (cases allowed)
        case False
        with small a Inr have "?out = handleRequestError
            (Gopher (GopherError ''Request not allowed'' REQUEST_FORBIDDEN 403))"
          by (simp add: serverHandleRequest_def)
        then show ?thesis by (rule errcase) simp
      next
        case True
        show ?thesis
        proof (cases "handleRequest host config fsOpts (serverParseRequest rawData)")
          case (Inl e)
          with small a Inr True have "?out = handleRequestError (Gopher e)"
            by (simp add: serverHandleRequest_def)
          moreover from Inl have "CHR 0x0A \<notin> set (message e)" by (rule handleRequest_msg)
          ultimately show ?thesis by (rule errcase)
        next
          case resp: (Inr response)
          show ?thesis
          proof (cases "isDirectory response \<and> items response \<noteq> None")
            case True
            then obtain its where d: "isDirectory response" and i: "items response = Some its"
              by auto
            from small a Inr \<open>allowed\<close> resp d i
            have o: "?out = concat (map itemLine its) @ ''.'' @ CRLF"
              by (simp add: serverHandleRequest_def serverFormatDirectoryListing_def)
            have e: "endsWith (concat (map itemLine its) @ ''.'' @ CRLF) (''.'' @ CRLF)"
              by (rule endsWith_append)
            have t: "(\<forall>item\<in>set its. lineFeedFree item) \<longrightarrow>
                terminatorLines (concat (map itemLine its) @ ''.'' @ CRLF) = 1"
              using terminatorLines_listing [of its "''.'' @ CRLF"] terminatorLines_terminator
              by simp
            from resp d i o e t show ?thesis by metis
          next
            case False
            from small a Inr \<open>allowed\<close> resp False
            have o: "?out = payloadBytes (data response) @ ''.'' @ CRLF"
              by (auto simp: serverHandleRequest_def split: option.splits bool.splits)
            have e: "endsWith (payloadBytes (data response) @ ''.'' @ CRLF) (''.'' @ CRLF)"
              by (rule endsWith_append)
            from resp o e show ?thesis by metis
          qed
        qed
      qed
    qed
  qed
qed


lemma parse_docs: "serverParseRequest (''/docs'' @ CRLF) = \<lparr>selector = ''/docs'', searchTerms = None\<rparr>"
  by (simp add: serverParseRequest_def trim_def CRLF_def isWhiteSpace_def fieldOr_def TAB_def)

lemma handle_docs:
  "handleRequest sampleHost sampleConfig defaultSecurityOptions
       \<lparr>selector = ''/docs'', searchTerms = None\<rparr>
     = Inr \<lparr>data = Text [], isDirectory = True, items = Some docsListing\<rparr>"
proof -
  have r: "resolvePath sampleConfig ''/docs'' = Inr ''/srv/gopher/docs''"
    by (simp add: resolvePath_def sampleConfig_def path_defs)
  have s: "getFileStats sampleHost ''/srv/gopher/docs'' = Inr \<lparr>statIsDirectory = True, statSize = 4096\<rparr>"
    by (simp add: getFileStats_def sample_defs)
  show ?thesis
    by (simp add: handleRequest_def validateRequest_def r s handleDirectoryRequest_def
        listing_docs_eq)
qed

lemma docsListing_lineFeedFree: "\<forall>item\<in>set docsListing. lineFeedFree item"
  by (simp add: docsListing_def lineFeedFree_def)

theorem response_ends_with_terminator_witness:
  "terminatorLines (fst (serverHandleRequest sampleHost 1000 sampleConfig defaultSecurityOptions
       sampleManager (''/docs'' @ CRLF) ''10.0.0.1'')) = 1
   \<and> endsWith (fst (serverHandleRequest sampleHost 1000 sampleConfig defaultSecurityOptions
       sampleManager (''/docs'' @ CRLF) ''10.0.0.1'')) (''.'' @ CRLF)"
proof -
  let ?out = "fst (serverHandleRequest sampleHost 1000 sampleConfig defaultSecurityOptions
       sampleManager (''/docs'' @ CRLF) ''10.0.0.1'')"
  note w = response_ends_with_terminator [of sampleHost 1000 sampleConfig defaultSecurityOptions
      sampleManager "''/docs'' @ CRLF" "''10.0.0.1''", unfolded parse_docs handle_docs]
  from w have e: "endsWith ?out (''.'' @ CRLF)" by blast
  from w consider
      (err) "terminatorLines ?out = 1"
    | (listing) "?out = concat (map itemLine docsListing) @ ''.'' @ CRLF"
        "(\<forall>item\<in>set docsListing. lineFeedFree item) \<longrightarrow> terminatorLines ?out = 1"
    | (payload) "?out = ''.'' @ CRLF"
    by auto
  then have "terminatorLines ?out = 1"
  proof cases
    case err
    then show ?thesis .
  next
    case listing
    with docsListing_lineFeedFree show ?thesis by blast
  next
    case payload
    then show ?thesis by (simp only: terminatorLines_terminator)
  qed
  with e show ?thesis by blast
qed

text \<open>
  The second line of \<open>notes.txt\<close> is a full stop. The response to its selector
  holds that line as it is, and so two terminator lines.
\<close>

theorem payload_terminator_counterexample:
  "fst (serverHandleRequest sampleHost 1000 sampleConfig defaultSecurityOptions
       sampleManager (''/notes.txt'' @ CRLF) ''10.0.0.1'')
     = ''a'' @ CRLF @ ''.'' @ CRLF @ ''b'' @ CRLF @ ''.'' @ CRLF
   \<and> terminatorLines (''a'' @ CRLF @ ''.'' @ CRLF @ ''b'' @ CRLF @ ''.'' @ CRLF) = 2"
proof (rule conjI)
  define raw where "raw = ''/notes.txt'' @ CRLF"
  define req where "req = \<lparr>selector = ''/notes.txt'', searchTerms = None\<rparr>"
  define payload where "payload = ''a'' @ CRLF @ ''.'' @ CRLF @ ''b'' @ CRLF"
  have sz: "\<not> length raw > maxRequestSize sampleConfig"
    by (simp add: raw_def sampleConfig_def CRLF_def)
  have p: "serverParseRequest raw = req"
    by (simp add: raw_def req_def serverParseRequest_def trim_def CRLF_def isWhiteSpace_def
        fieldOr_def TAB_def)
  have v: "validatePathTraversal ''/notes.txt'' = Inr ()"
    by (simp add: validatePathTraversal_def path_defs suspiciousPatterns_def toLowerCase_def
        lowerChar_def)
  have a: "validateAllowedPath sampleHost sampleManager ''/notes.txt'' = Inr ()"
    by (simp add: validateAllowedPath_def sampleManager_dir sampleHost_def path_defs)
  have s: "validateSelector ''/notes.txt'' = Inr ()"
    by (simp add: validateSelector_def forbiddenChars_def)
  have c: "\<exists>m'. checkRateLimit (options sampleManager) 1000 ''10.0.0.1'' (rateLimitMap sampleManager) = Inr m'"
    by (simp add: checkRateLimit_def sampleManager_def newSecurityManager_def)
  have al: "fst (isRequestAllowed sampleHost 1000 sampleManager req ''10.0.0.1'') = Inr True"
    using c by (auto simp: isRequestAllowed_def req_def v a s)
  have r: "resolvePath sampleConfig ''/notes.txt'' = Inr ''/srv/gopher/notes.txt''"
    by (simp add: resolvePath_def sampleConfig_def path_defs)
  have st: "getFileStats sampleHost ''/srv/gopher/notes.txt'' = Inr \<lparr>statIsDirectory = False, statSize = 9\<rparr>"
    by (simp add: getFileStats_def sample_defs)
  have rd: "fsReadFile sampleHost ''/srv/gopher/notes.txt'' = Some payload"
    by (simp add: sampleHost_def sampleReadFile_def payload_def)
  have rf: "readFile sampleHost defaultSecurityOptions ''/srv/gopher/notes.txt'' = Inr (Text payload)"
    by (simp add: readFile_def st rd validateFileSize_def defaultSecurityOptions_def
        isFileTypeAllowed_def isBinaryFile_def path_defs toLowerCase_def lowerChar_def
        forbiddenExtensions_def binaryExtensions_def)
  have h: "handleRequest sampleHost sampleConfig defaultSecurityOptions req
     = Inr \<lparr>data = Text payload, isDirectory = False, items = None\<rparr>"
    by (simp add: req_def handleRequest_def validateRequest_def r st handleFileRequest_def rf)
  obtain x sm' where i: "isRequestAllowed sampleHost 1000 sampleManager req ''10.0.0.1'' = (x, sm')"
    by (cases "isRequestAllowed sampleHost 1000 sampleManager req ''10.0.0.1''")
  with al have x: "x = Inr True" by simp
  have main: "fst (serverHandleRequest sampleHost 1000 sampleConfig defaultSecurityOptions
       sampleManager raw ''10.0.0.1'') = payload @ ''.'' @ CRLF"
    by (simp add: serverHandleRequest_def sz p i x h)
  then show "fst (serverHandleRequest sampleHost 1000 sampleConfig defaultSecurityOptions
       sampleManager (''/notes.txt'' @ CRLF) ''10.0.0.1'')
     = ''a'' @ CRLF @ ''.'' @ CRLF @ ''b'' @ CRLF @ ''.'' @ CRLF"
    unfolding raw_def payload_def by simp
  show "terminatorLines (''a'' @ CRLF @ ''.'' @ CRLF @ ''b'' @ CRLF @ ''.'' @ CRLF) = 2"
    by (simp add: terminatorLines_def CRLF_def)
qed

section \<open>Properties: paths written from plain segments\<close>

lemma splitOn_no_sep: "c \<notin> set s \<Longrightarrow> splitOn c s = [s]"
  by (induction s) auto

lemma splitOn_append_sep: "splitOn c (a @ c # b) = splitOn c a @ splitOn c b"
proof (induction a)
  case Nil
  then show ?case by simp
next
  case (Cons x a)
  show ?case
  proof (cases "x = c")
    case True
    with Cons show ?thesis by simp
  next
    case False
    obtain w ws where s: "splitOn c a = w # ws"
      using splitOn_not_Nil [of c a] by (cases "splitOn c a") auto
    with False Cons show ?thesis by simp
  qed
qed

lemma joinWith_snoc: "ss \<noteq> [] \<Longrightarrow> joinWith sep (ss @ [x]) = joinWith sep ss @ sep @ x"
  by (induction sep ss rule: joinWith.induct) auto

lemma joinWith_Cons: "ss \<noteq> [] \<Longrightarrow> joinWith sep (s # ss) = s @ sep @ joinWith sep ss"
  by (cases ss) auto

lemma splitOn_joinWith:
  assumes "ss \<noteq> []" and "\<forall>s\<in>set ss. CHR ''/'' \<notin> set s"
  shows "splitOn CHR ''/'' (joinWith ''/'' ss) = ss"
  using assms
proof (induction ss)
  case Nil
  then show ?case by simp
next
  case (Cons s ss)
  show ?case
  proof (cases "ss = []")
    case True
    with Cons.prems show ?thesis by (simp add: splitOn_no_sep)
  next
    case False
    then have j: "joinWith ''/'' (s # ss) = s @ CHR ''/'' # joinWith ''/'' ss"
      by (simp add: joinWith_Cons)
    from False Cons have ih: "splitOn CHR ''/'' (joinWith ''/'' ss) = ss" by simp
    from Cons.prems have "splitOn CHR ''/'' s = [s]" by (simp add: splitOn_no_sep)
    with ih show ?thesis unfolding j splitOn_append_sep by simp
  qed
qed

lemma plain_no_slash: "plainSegment s \<Longrightarrow> CHR ''/'' \<notin> set s"
  by (simp add: plainSegment_def)

lemma splitOn_absPath:
  assumes "\<forall>s\<in>set ss. plainSegment s"
  shows "splitOn CHR ''/'' (absPath ss) = [] # (if ss = [] then [[]] else ss)"
proof -
  have "splitOn CHR ''/'' (absPath ss) = splitOn CHR ''/'' ([] @ CHR ''/'' # joinWith ''/'' ss)"
    by (simp add: absPath_def)
  also have "\<dots> = [[]] @ splitOn CHR ''/'' (joinWith ''/'' ss)"
    unfolding splitOn_append_sep by simp
  finally show ?thesis
    using assms splitOn_joinWith [of ss] by (auto simp: plain_no_slash)
qed

lemma segments_absPath:
  assumes "\<forall>s\<in>set ss. plainSegment s"
  shows "segments (absPath ss) = ss"
proof -
  have "filter (\<lambda>s. s \<noteq> []) ss = ss"
    using assms by (simp add: plainSegment_def filter_id_conv)
  then show ?thesis
    using splitOn_absPath [OF assms] by (simp add: segments_def)
qed

lemma normStep_plain: "plainSegment s \<Longrightarrow> normStep b acc s = acc @ [s]"
  by (simp add: normStep_def plainSegment_def)

lemma foldl_normStep_plain:
  "\<forall>s\<in>set ss. plainSegment s \<Longrightarrow> foldl (normStep b) acc ss = acc @ ss"
  by (induction ss arbitrary: acc) (simp_all add: normStep_plain)

lemma normStep_empty: "normStep b acc [] = acc"
  by (simp add: normStep_def)

lemma pathResolve_absPath:
  assumes "\<forall>s\<in>set ss. plainSegment s"
  shows "pathResolve wd [absPath ss] = absPath ss"
proof -
  have r: "resolveLoop (rev [absPath ss] @ [wd]) [] = absPath ss @ ''/''"
    by (simp add: absPath_def)
  have sp: "splitOn CHR ''/'' (absPath ss @ ''/'') = splitOn CHR ''/'' (absPath ss) @ [[]]"
    using splitOn_append_sep [of "CHR ''/''" "absPath ss" "[]"] by simp
  have n: "normalizeSegments False (absPath ss @ ''/'') = ss"
  proof (cases "ss = []")
    case True
    then show ?thesis
      by (simp add: normalizeSegments_def absPath_def normStep_empty)
  next
    case False
    with sp splitOn_absPath [OF assms]
    have "splitOn CHR ''/'' (absPath ss @ ''/'') = [] # ss @ [[]]" by simp
    then show ?thesis
      using assms by (simp add: normalizeSegments_def normStep_empty foldl_normStep_plain)
  qed
  have h: "absPath ss @ ''/'' \<noteq> [] \<and> hd (absPath ss @ ''/'') = CHR ''/''"
    by (simp add: absPath_def)
  show ?thesis
    unfolding pathResolve_def r
    using h n by (simp add: Let_def normalizeString_def absPath_def)
qed

lemma commonPrefixLength_append: "commonPrefixLength rs (rs @ xs) = length rs"
  by (induction rs) auto


lemma joinWith_not_Nil:
  "ss \<noteq> [] \<Longrightarrow> \<forall>s\<in>set ss. s \<noteq> [] \<Longrightarrow> joinWith sep ss \<noteq> []"
  by (induction sep ss rule: joinWith.induct) auto

lemma dropWhile_slash_rev_plain:
  assumes "plainSegment l"
  shows "dropWhile (\<lambda>c. c = CHR ''/'') (rev l @ xs) = rev l @ xs"
proof -
  from assms have ne: "l \<noteq> []" and ns: "CHR ''/'' \<notin> set l"
    by (simp_all add: plainSegment_def)
  from ne have "last l \<in> set l" by simp
  with ns have "last l \<noteq> CHR ''/''" by auto
  with ne have "rev l \<noteq> []" and "hd (rev l) \<noteq> CHR ''/''" by (simp_all add: hd_rev)
  then show ?thesis by (cases "rev l") auto
qed

lemma dropWhile_nonslash_rev_plain:
  assumes "plainSegment l"
  shows "dropWhile (\<lambda>c. c \<noteq> CHR ''/'') (rev l @ xs) = dropWhile (\<lambda>c. c \<noteq> CHR ''/'') xs"
proof -
  from assms have "\<forall>c\<in>set (rev l). c \<noteq> CHR ''/''" by (auto simp: plainSegment_def)
  then show ?thesis by (simp add: dropWhile_append)
qed

lemma dirname_Cons_slash:
  assumes "dropWhile (\<lambda>c. c = CHR ''/'') (rev t) = a"
    and "dropWhile (\<lambda>c. c \<noteq> CHR ''/'') a = b"
  shows "dirname (CHR ''/'' # t)
     = (if b = [] then ''/'' else if length b = 1 then ''//''
        else take (length b) (CHR ''/'' # t))"
  by (simp add: dirname_def Let_def assms del: dropWhile_eq_Nil_conv)

lemma dirname_absPath:
  assumes "ss \<noteq> []" and "\<forall>s\<in>set ss. plainSegment s"
  shows "dirname (absPath ss) = absPath (butlast ss)"
proof -
  define bs where "bs = butlast ss"
  define l where "l = last ss"
  from assms(1) have ss: "ss = bs @ [l]" by (simp add: bs_def l_def)
  from assms(2) ss have pl: "plainSegment l" and pb: "\<forall>s\<in>set bs. plainSegment s" by auto
  show ?thesis
  proof (cases "bs = []")
    case True
    with ss have p: "absPath ss = CHR ''/'' # l" by (simp add: absPath_def)
    have r1: "dropWhile (\<lambda>c. c = CHR ''/'') (rev l) = rev l"
      using dropWhile_slash_rev_plain [OF pl, of "[]"] by simp
    have r2: "dropWhile (\<lambda>c. c \<noteq> CHR ''/'') (rev l) = []"
      using dropWhile_nonslash_rev_plain [OF pl, of "[]"] by simp
    have "dirname (CHR ''/'' # l) = ''/''"
      using dirname_Cons_slash [OF r1 r2] by simp
    with p True show ?thesis by (simp add: bs_def [symmetric] absPath_def)
  next
    case False
    define J where "J = joinWith ''/'' bs"
    from False pb have Jne: "J \<noteq> []"
      unfolding J_def by (intro joinWith_not_Nil) (auto simp: plainSegment_def)
    from False ss have p: "absPath ss = CHR ''/'' # J @ CHR ''/'' # l"
      by (simp add: absPath_def joinWith_snoc J_def)
    have rv: "rev (J @ CHR ''/'' # l) = rev l @ CHR ''/'' # rev J" by simp
    have r1: "dropWhile (\<lambda>c. c = CHR ''/'') (rev l @ CHR ''/'' # rev J) = rev l @ CHR ''/'' # rev J"
      by (rule dropWhile_slash_rev_plain [OF pl])
    have r2: "dropWhile (\<lambda>c. c \<noteq> CHR ''/'') (rev l @ CHR ''/'' # rev J) = CHR ''/'' # rev J"
      using dropWhile_nonslash_rev_plain [OF pl, of "CHR ''/'' # rev J"] by simp
    from Jne have len: "length (CHR ''/'' # rev J) \<noteq> 1" by simp
    have "dirname (CHR ''/'' # J @ CHR ''/'' # l) = take (length (CHR ''/'' # rev J)) (CHR ''/'' # J @ CHR ''/'' # l)"
    proof -
      have r1': "dropWhile (\<lambda>c. c = CHR ''/'') (rev (J @ CHR ''/'' # l)) = rev l @ CHR ''/'' # rev J"
        unfolding rv by (rule r1)
      from dirname_Cons_slash [OF r1' r2] len show ?thesis by simp
    qed
    also have "\<dots> = CHR ''/'' # J" by simp
    finally show ?thesis using p by (simp add: bs_def [symmetric] absPath_def J_def)
  qed
qed

lemma absPath_inject:
  assumes "\<forall>s\<in>set a. plainSegment s" and "\<forall>s\<in>set b. plainSegment s"
    and "absPath a = absPath b"
  shows "a = b"
proof -
  have "a = segments (absPath a)" by (rule segments_absPath [OF assms(1), symmetric])
  also have "\<dots> = segments (absPath b)" by (simp only: assms(3))
  also have "\<dots> = b" by (rule segments_absPath [OF assms(2)])
  finally show ?thesis .
qed

lemma getParentSelector_absPath:
  assumes "documentRoot config = absPath rs" and "dirPath = absPath (rs @ ds)"
    and "ds \<noteq> []" and "\<forall>s\<in>set (rs @ ds). plainSegment s"
  shows "getParentSelector host config dirPath
           = ''/'' @ backslashesToSlashes (joinWith ''/'' (butlast ds))"
proof -
  from assms(4) have prs: "\<forall>s\<in>set rs. plainSegment s" by simp
  from assms(4) have pbd: "\<forall>s\<in>set (rs @ butlast ds). plainSegment s"
    by (auto dest: in_set_butlastD)
  have ne: "rs @ ds \<noteq> []" using assms(3) by simp
  have bl: "butlast (rs @ ds) = rs @ butlast ds" using assms(3) by (simp add: butlast_append)
  have d: "dirname dirPath = absPath (rs @ butlast ds)"
    unfolding assms(2) using dirname_absPath [OF ne assms(4)] bl by simp
  show ?thesis
  proof (cases "butlast ds = []")
    case True
    with d assms(1) show ?thesis
      by (simp add: getParentSelector_def backslashesToSlashes_def)
  next
    case False
    have neq: "absPath (rs @ butlast ds) \<noteq> absPath rs"
    proof
      assume "absPath (rs @ butlast ds) = absPath rs"
      from absPath_inject [OF pbd prs this] False show False by simp
    qed
    from neq have neq': "absPath rs \<noteq> absPath (rs @ butlast ds)" by (rule not_sym)
    have f: "pathResolve (cwd host) [absPath rs] = absPath rs"
      by (rule pathResolve_absPath [OF prs])
    have t: "pathResolve (cwd host) [absPath (rs @ butlast ds)] = absPath (rs @ butlast ds)"
      by (rule pathResolve_absPath [OF pbd])
    have sf: "segments (absPath rs) = rs" by (rule segments_absPath [OF prs])
    have st: "segments (absPath (rs @ butlast ds)) = rs @ butlast ds"
      by (rule segments_absPath [OF pbd])
    have "pathRelative (cwd host) (absPath rs) (absPath (rs @ butlast ds))
        = joinWith ''/'' (replicate (length rs - commonPrefixLength rs (rs @ butlast ds)) ''..''
            @ drop (commonPrefixLength rs (rs @ butlast ds)) (rs @ butlast ds))"
      unfolding pathRelative_def Let_def f t sf st using neq' by (simp only: if_False)
    then have rel: "pathRelative (cwd host) (absPath rs) (absPath (rs @ butlast ds))
        = joinWith ''/'' (butlast ds)"
      by (simp add: commonPrefixLength_append)
    from neq d assms(1) rel show ?thesis
      unfolding getParentSelector_def Let_def by simp
  qed
qed


section \<open>Properties: the go-up entry\<close>

lemma formatDisplayString_not_dotdot:
  assumes "\<not> startsWith nm ''.''"
  shows "formatDisplayString nm d \<noteq> ''..''"
proof (cases nm)
  case Nil
  then show ?thesis by (simp add: formatDisplayString_def)
next
  case (Cons c n)
  with assms have c: "c \<noteq> CHR ''.''" by simp
  define rest where "rest = (if d then n @ ''/'' else n)"
  have dn: "(if d then nm @ ''/'' else nm) = c # rest" using Cons by (simp add: rest_def)
  have "formatDisplayString nm d
      = (if length (c # rest) > 67 then take 64 (c # rest) @ ''...'' else c # rest)"
    by (simp add: formatDisplayString_def Let_def dn)
  then have "hd (formatDisplayString nm d) = c" by simp
  with c show ?thesis by auto
qed

lemma entryItem_not_dotdot:
  "\<not> startsWith (name entry) ''.'' \<Longrightarrow> displayString (entryItem host config dirPath entry) \<noteq> ''..''"
  by (simp add: entryItem_def Let_def formatDisplayString_not_dotdot)

lemma insertBy_split:
  "\<exists>pre post. insertBy cmp x ys = pre @ x # post \<and> ys = pre @ post \<and> (\<forall>y\<in>set pre. 0 < cmp x y)"
proof (induction ys)
  case Nil
  show ?case
    by (rule exI [where x = "[]"], rule exI [where x = "[]"]) simp
next
  case (Cons y ys)
  show ?case
  proof (cases "cmp x y \<le> 0")
    case True
    then show ?thesis
      by - (rule exI [where x = "[]"], rule exI [where x = "y # ys"], simp)
  next
    case False
    from Cons.IH obtain pre post where i: "insertBy cmp x ys = pre @ x # post"
      and e: "ys = pre @ post" and a: "\<forall>z\<in>set pre. 0 < cmp x z" by blast
    from False have f: "0 < cmp x y" by simp
    have 1: "insertBy cmp x (y # ys) = (y # pre) @ x # post" using False i by simp
    have 2: "y # ys = (y # pre) @ post" using e by simp
    have 3: "\<forall>z\<in>set (y # pre). 0 < cmp x z" using f a by simp
    from 1 2 3 show ?thesis
      by - (rule exI [where x = "y # pre"], rule exI [where x = post], intro conjI)
  qed
qed

lemma compareItems_parent_positive:
  assumes "itemType p = DIRECTORY" and "0 < compareItems host p y"
  shows "itemType y = DIRECTORY \<and> 0 < localeCompare host (displayString p) (displayString y)"
  using assms by (cases "itemType y = DIRECTORY") (simp_all add: compareItems_def)

text \<open>
  How a listing is put together. For the configured root the listing holds
  the items of the entries alone. For any other path the item that
  \<open>parentItem\<close> builds is inserted into the sorted items of the entries:
  the items ahead of it are directories whose labels collate strictly
  before \<open>..\<close>, and no item of an entry is labelled \<open>..\<close>.
\<close>

lemma listing_splits_at_parentItem:
  assumes "fsReaddir host dirPath = Some entries"
  shows "\<exists>its. getDirectoryListing host config dirPath = Inr its
     \<and> (dirPath = documentRoot config \<longrightarrow> (\<forall>item\<in>set its. displayString item \<noteq> ''..''))
     \<and> (dirPath \<noteq> documentRoot config \<longrightarrow>
          length (filter (\<lambda>item. displayString item = ''..'') its) = 1
        \<and> (\<exists>pre post. its = pre @ parentItem host config dirPath # post
             \<and> (\<forall>item\<in>set pre. itemType item = DIRECTORY
                   \<and> 0 < localeCompare host ''..'' (displayString item))
             \<and> (\<forall>item\<in>set post. displayString item \<noteq> ''..'')))
     \<and> (\<forall>rs ds. documentRoot config = absPath rs \<and> dirPath = absPath (rs @ ds) \<and> ds \<noteq> []
            \<and> (\<forall>s\<in>set (rs @ ds). plainSegment s) \<longrightarrow>
          itemSelector (parentItem host config dirPath)
            = ''/'' @ backslashesToSlashes (joinWith ''/'' (butlast ds)))"
proof -
  define rest where "rest = map (entryItem host config dirPath)
      (filter (\<lambda>entry. \<not> startsWith (name entry) ''.'') entries)"
  define p where "p = parentItem host config dirPath"
  have restnd: "\<forall>item\<in>set rest. displayString item \<noteq> ''..''"
    unfolding rest_def by (simp add: entryItem_not_dotdot)
  have sel: "\<forall>rs ds. documentRoot config = absPath rs \<and> dirPath = absPath (rs @ ds) \<and> ds \<noteq> []
            \<and> (\<forall>s\<in>set (rs @ ds). plainSegment s) \<longrightarrow>
          itemSelector (parentItem host config dirPath)
            = ''/'' @ backslashesToSlashes (joinWith ''/'' (butlast ds))"
  proof (intro allI impI)
    fix rs ds
    assume h: "documentRoot config = absPath rs \<and> dirPath = absPath (rs @ ds) \<and> ds \<noteq> []
            \<and> (\<forall>s\<in>set (rs @ ds). plainSegment s)"
    then have a1: "documentRoot config = absPath rs" and a2: "dirPath = absPath (rs @ ds)"
      and a3: "ds \<noteq> []" and a4: "\<forall>s\<in>set (rs @ ds). plainSegment s"
      by blast+
    have "getParentSelector host config dirPath
           = ''/'' @ backslashesToSlashes (joinWith ''/'' (butlast ds))"
      using a1 a2 a3 a4 by (rule getParentSelector_absPath)
    then show "itemSelector (parentItem host config dirPath)
            = ''/'' @ backslashesToSlashes (joinWith ''/'' (butlast ds))"
      by (simp add: parentItem_def)
  qed
  show ?thesis
  proof (cases "dirPath = documentRoot config")
    case True
    then have l: "getDirectoryListing host config dirPath = Inr (sortBy (compareItems host) rest)"
      using assms by (simp add: getDirectoryListing_def rest_def)
    have n: "\<forall>item\<in>set (sortBy (compareItems host) rest). displayString item \<noteq> ''..''"
      using restnd by (simp only: set_sortBy)
    show ?thesis
    proof (intro exI conjI)
      show "getDirectoryListing host config dirPath = Inr (sortBy (compareItems host) rest)"
        by (rule l)
      show "dirPath = documentRoot config \<longrightarrow>
          (\<forall>item\<in>set (sortBy (compareItems host) rest). displayString item \<noteq> ''..'')"
        using n by (rule impI)
      show "dirPath \<noteq> documentRoot config \<longrightarrow>
          length (filter (\<lambda>item. displayString item = ''..'') (sortBy (compareItems host) rest)) = 1
        \<and> (\<exists>pre post. sortBy (compareItems host) rest = pre @ parentItem host config dirPath # post
             \<and> (\<forall>item\<in>set pre. itemType item = DIRECTORY
                   \<and> 0 < localeCompare host ''..'' (displayString item))
             \<and> (\<forall>item\<in>set post. displayString item \<noteq> ''..''))"
        using True by (simp only: not_True_eq_False simp_thms)
      show "\<forall>rs ds. documentRoot config = absPath rs \<and> dirPath = absPath (rs @ ds) \<and> ds \<noteq> []
            \<and> (\<forall>s\<in>set (rs @ ds). plainSegment s) \<longrightarrow>
          itemSelector (parentItem host config dirPath)
            = ''/'' @ backslashesToSlashes (joinWith ''/'' (butlast ds))"
        by (rule sel)
    qed
  next
    case False
    then have l: "getDirectoryListing host config dirPath
        = Inr (insertBy (compareItems host) p (sortBy (compareItems host) rest))"
      using assms by (simp add: getDirectoryListing_def rest_def p_def sortBy_Cons)
    from insertBy_split [of "compareItems host" p "sortBy (compareItems host) rest"]
    obtain pre post where i: "insertBy (compareItems host) p (sortBy (compareItems host) rest)
          = pre @ p # post"
      and e: "sortBy (compareItems host) rest = pre @ post"
      and a: "\<forall>y\<in>set pre. 0 < compareItems host p y"
      by blast
    have pd: "itemType p = DIRECTORY" and pl: "displayString p = ''..''"
      by (simp_all add: p_def parentItem_def)
    have "set (pre @ post) = set rest"
      unfolding e [symmetric] by (rule set_sortBy)
    then have u: "set pre \<union> set post = set rest" by simp
    have npre: "\<forall>item\<in>set pre. displayString item \<noteq> ''..''"
    proof
      fix item assume "item \<in> set pre"
      with u have "item \<in> set rest" by blast
      with restnd show "displayString item \<noteq> ''..''" by (rule bspec)
    qed
    have npost: "\<forall>item\<in>set post. displayString item \<noteq> ''..''"
    proof
      fix item assume "item \<in> set post"
      with u have "item \<in> set rest" by blast
      with restnd show "displayString item \<noteq> ''..''" by (rule bspec)
    qed
    have fpre: "filter (\<lambda>item. displayString item = ''..'') pre = []"
      using npre by (simp add: filter_empty_conv)
    have fpost: "filter (\<lambda>item. displayString item = ''..'') post = []"
      using npost by (simp add: filter_empty_conv)
    have c: "length (filter (\<lambda>item. displayString item = ''..'') (pre @ p # post)) = 1"
      by (simp add: fpre fpost pl)
    have b: "\<forall>item\<in>set pre. itemType item = DIRECTORY
          \<and> 0 < localeCompare host ''..'' (displayString item)"
    proof
      fix item assume "item \<in> set pre"
      with a have "0 < compareItems host p item" by (rule bspec)
      from compareItems_parent_positive [OF pd this]
      show "itemType item = DIRECTORY \<and> 0 < localeCompare host ''..'' (displayString item)"
        unfolding pl .
    qed
    have ex: "\<exists>pre' post'. pre @ p # post = pre' @ p # post'
             \<and> (\<forall>item\<in>set pre'. itemType item = DIRECTORY
                   \<and> 0 < localeCompare host ''..'' (displayString item))
             \<and> (\<forall>item\<in>set post'. displayString item \<noteq> ''..'')"
    proof (intro exI conjI)
      show "pre @ p # post = pre @ p # post" by (rule refl)
      show "\<forall>item\<in>set pre. itemType item = DIRECTORY
                   \<and> 0 < localeCompare host ''..'' (displayString item)" by (rule b)
      show "\<forall>item\<in>set post. displayString item \<noteq> ''..''" by (rule npost)
    qed
    show ?thesis
    proof (intro exI conjI)
      show "getDirectoryListing host config dirPath = Inr (pre @ p # post)"
        unfolding l i by (rule refl)
      show "dirPath = documentRoot config \<longrightarrow>
          (\<forall>item\<in>set (pre @ p # post). displayString item \<noteq> ''..'')"
        using False by (simp only: simp_thms)
      show "dirPath \<noteq> documentRoot config \<longrightarrow>
          length (filter (\<lambda>item. displayString item = ''..'') (pre @ p # post)) = 1
        \<and> (\<exists>pre' post'. pre @ p # post = pre' @ parentItem host config dirPath # post'
             \<and> (\<forall>item\<in>set pre'. itemType item = DIRECTORY
                   \<and> 0 < localeCompare host ''..'' (displayString item))
             \<and> (\<forall>item\<in>set post'. displayString item \<noteq> ''..''))"
        using c ex unfolding p_def by (intro impI conjI)
      show "\<forall>rs ds. documentRoot config = absPath rs \<and> dirPath = absPath (rs @ ds) \<and> ds \<noteq> []
            \<and> (\<forall>s\<in>set (rs @ ds). plainSegment s) \<longrightarrow>
          itemSelector (parentItem host config dirPath)
            = ''/'' @ backslashesToSlashes (joinWith ''/'' (butlast ds))"
        by (rule sel)
    qed
  qed
qed


lemma backslashesToSlashes_id: "CHR 0x5C \<notin> set s \<Longrightarrow> backslashesToSlashes s = s"
  by (induction s) (auto simp: backslashesToSlashes_def)

lemma joinWith_no_backslash:
  "\<forall>s\<in>set ss. CHR 0x5C \<notin> set s \<Longrightarrow> CHR 0x5C \<notin> set (joinWith ''/'' ss)"
  by (induction "''/''" ss rule: joinWith.induct) simp_all

text \<open>
  C5 (as amended). Let the document root and a directory strictly below it
  be written with plain segments, the segments below the root without
  backslash. The listing of the directory holds exactly one entry labelled
  \<open>..\<close>, the synthetic go-up entry, tagged directory; its selector is the
  slash followed by the root-relative path of the parent directory. The
  entries ahead of it, if any, are subdirectories whose labels collate
  strictly before \<open>..\<close>; so it is the first entry when there is no such
  subdirectory, and it precedes every file. The listing of the configured
  document root holds no entry labelled \<open>..\<close>.
\<close>

theorem parent_entry_of_listing:
  assumes "fsReaddir host dirPath = Some entries"
  shows "\<exists>its. getDirectoryListing host config dirPath = Inr its
     \<and> (dirPath = documentRoot config \<longrightarrow> (\<forall>item\<in>set its. displayString item \<noteq> ''..''))
     \<and> (\<forall>rs ds. documentRoot config = absPath rs \<and> dirPath = absPath (rs @ ds) \<and> ds \<noteq> []
            \<and> (\<forall>s\<in>set (rs @ ds). plainSegment s) \<and> (\<forall>s\<in>set ds. CHR 0x5C \<notin> set s) \<longrightarrow>
          length (filter (\<lambda>item. displayString item = ''..'') its) = 1
        \<and> (\<exists>pre post.
              its = pre @ \<lparr>itemType = DIRECTORY, displayString = ''..'',
                           itemSelector = ''/'' @ joinWith ''/'' (butlast ds),
                           itemHostname = hostname config, itemPort = port config\<rparr> # post
            \<and> (\<forall>item\<in>set pre. itemType item = DIRECTORY
                  \<and> 0 < localeCompare host ''..'' (displayString item))
            \<and> (\<forall>item\<in>set post. displayString item \<noteq> ''..'')))"
proof -
  from listing_splits_at_parentItem [OF assms, of config]
  obtain its where l: "getDirectoryListing host config dirPath = Inr its"
    and r: "dirPath = documentRoot config \<longrightarrow> (\<forall>item\<in>set its. displayString item \<noteq> ''..'')"
    and n: "dirPath \<noteq> documentRoot config \<longrightarrow>
          length (filter (\<lambda>item. displayString item = ''..'') its) = 1
        \<and> (\<exists>pre post. its = pre @ parentItem host config dirPath # post
             \<and> (\<forall>item\<in>set pre. itemType item = DIRECTORY
                   \<and> 0 < localeCompare host ''..'' (displayString item))
             \<and> (\<forall>item\<in>set post. displayString item \<noteq> ''..''))"
    by blast
  have below: "length (filter (\<lambda>item. displayString item = ''..'') its) = 1
        \<and> (\<exists>pre post.
              its = pre @ \<lparr>itemType = DIRECTORY, displayString = ''..'',
                           itemSelector = ''/'' @ joinWith ''/'' (butlast ds),
                           itemHostname = hostname config, itemPort = port config\<rparr> # post
            \<and> (\<forall>item\<in>set pre. itemType item = DIRECTORY
                  \<and> 0 < localeCompare host ''..'' (displayString item))
            \<and> (\<forall>item\<in>set post. displayString item \<noteq> ''..''))"
    if h: "documentRoot config = absPath rs \<and> dirPath = absPath (rs @ ds) \<and> ds \<noteq> []
            \<and> (\<forall>s\<in>set (rs @ ds). plainSegment s) \<and> (\<forall>s\<in>set ds. CHR 0x5C \<notin> set s)"
    for rs ds
  proof -
    from h have a1: "documentRoot config = absPath rs" and a2: "dirPath = absPath (rs @ ds)"
      and a3: "ds \<noteq> []" and a4: "\<forall>s\<in>set (rs @ ds). plainSegment s"
      and a5: "\<forall>s\<in>set ds. CHR 0x5C \<notin> set s"
      by blast+
    from a4 have prs: "\<forall>s\<in>set rs. plainSegment s" by simp
    have ne: "dirPath \<noteq> documentRoot config"
    proof
      assume "dirPath = documentRoot config"
      with a1 a2 have "absPath (rs @ ds) = absPath rs" by simp
      from absPath_inject [OF a4 prs this] a3 show False by simp
    qed
    from a5 have "\<forall>s\<in>set (butlast ds). CHR 0x5C \<notin> set s" by (auto dest: in_set_butlastD)
    then have nb: "CHR 0x5C \<notin> set (joinWith ''/'' (butlast ds))" by (rule joinWith_no_backslash)
    have "getParentSelector host config dirPath
           = ''/'' @ backslashesToSlashes (joinWith ''/'' (butlast ds))"
      using a1 a2 a3 a4 by (rule getParentSelector_absPath)
    then have sel: "getParentSelector host config dirPath = ''/'' @ joinWith ''/'' (butlast ds)"
      by (simp only: backslashesToSlashes_id [OF nb])
    have p: "parentItem host config dirPath
        = \<lparr>itemType = DIRECTORY, displayString = ''..'',
           itemSelector = ''/'' @ joinWith ''/'' (butlast ds),
           itemHostname = hostname config, itemPort = port config\<rparr>"
      unfolding parentItem_def sel by (rule refl)
    from n ne show ?thesis unfolding p by (rule mp)
  qed
  show ?thesis
  proof (intro exI conjI)
    show "getDirectoryListing host config dirPath = Inr its" by (rule l)
    show "dirPath = documentRoot config \<longrightarrow> (\<forall>item\<in>set its. displayString item \<noteq> ''..'')"
      by (rule r)
    show "\<forall>rs ds. documentRoot config = absPath rs \<and> dirPath = absPath (rs @ ds) \<and> ds \<noteq> []
            \<and> (\<forall>s\<in>set (rs @ ds). plainSegment s) \<and> (\<forall>s\<in>set ds. CHR 0x5C \<notin> set s) \<longrightarrow>
          length (filter (\<lambda>item. displayString item = ''..'') its) = 1
        \<and> (\<exists>pre post.
              its = pre @ \<lparr>itemType = DIRECTORY, displayString = ''..'',
                           itemSelector = ''/'' @ joinWith ''/'' (butlast ds),
                           itemHostname = hostname config, itemPort = port config\<rparr> # post
            \<and> (\<forall>item\<in>set pre. itemType item = DIRECTORY
                  \<and> 0 < localeCompare host ''..'' (displayString item))
            \<and> (\<forall>item\<in>set post. displayString item \<noteq> ''..''))"
      using below by (intro allI impI)
  qed
qed

theorem parent_entry_of_listing_witness:
  "length (filter (\<lambda>item. displayString item = ''..'')
       (projr (getDirectoryListing sampleHost sampleConfig ''/srv/gopher/docs/sub''))) = 1
   \<and> \<lparr>itemType = DIRECTORY, displayString = ''..'', itemSelector = ''/docs'',
        itemHostname = ''localhost'', itemPort = 70\<rparr>
       \<in> set (projr (getDirectoryListing sampleHost sampleConfig ''/srv/gopher/docs/sub''))"
proof -
  have h: "fsReaddir sampleHost ''/srv/gopher/docs/sub'' = Some []"
    by (simp add: sampleHost_def sampleReaddir_def)
  have seg: "documentRoot sampleConfig = absPath [''srv'', ''gopher'']
      \<and> ''/srv/gopher/docs/sub'' = absPath ([''srv'', ''gopher''] @ [''docs'', ''sub''])
      \<and> [''docs'', ''sub''] \<noteq> []
      \<and> (\<forall>s\<in>set ([''srv'', ''gopher''] @ [''docs'', ''sub'']). plainSegment s)
      \<and> (\<forall>s\<in>set [''docs'', ''sub'']. CHR 0x5C \<notin> set s)"
    by (simp add: sampleConfig_def absPath_def plainSegment_def)
  from parent_entry_of_listing [OF h, of sampleConfig]
  obtain its where l: "getDirectoryListing sampleHost sampleConfig ''/srv/gopher/docs/sub'' = Inr its"
    and s: "\<forall>rs ds. documentRoot sampleConfig = absPath rs
            \<and> ''/srv/gopher/docs/sub'' = absPath (rs @ ds) \<and> ds \<noteq> []
            \<and> (\<forall>s\<in>set (rs @ ds). plainSegment s) \<and> (\<forall>s\<in>set ds. CHR 0x5C \<notin> set s) \<longrightarrow>
          length (filter (\<lambda>item. displayString item = ''..'') its) = 1
        \<and> (\<exists>pre post.
              its = pre @ \<lparr>itemType = DIRECTORY, displayString = ''..'',
                           itemSelector = ''/'' @ joinWith ''/'' (butlast ds),
                           itemHostname = hostname sampleConfig, itemPort = port sampleConfig\<rparr>
                      # post
            \<and> (\<forall>item\<in>set pre. itemType item = DIRECTORY
                  \<and> 0 < localeCompare sampleHost ''..'' (displayString item))
            \<and> (\<forall>item\<in>set post. displayString item \<noteq> ''..''))"
    by blast
  note w = mp [OF spec [OF spec [OF s]] seg]
  from w have 1: "length (filter (\<lambda>item. displayString item = ''..'') its) = 1"
    by (rule conjunct1)
  from conjunct2 [OF w] obtain pre post where
    "its = pre @ \<lparr>itemType = DIRECTORY, displayString = ''..'',
                   itemSelector = ''/'' @ joinWith ''/'' (butlast [''docs'', ''sub'']),
                   itemHostname = hostname sampleConfig, itemPort = port sampleConfig\<rparr> # post"
    by blast
  then have 2: "\<lparr>itemType = DIRECTORY, displayString = ''..'', itemSelector = ''/docs'',
        itemHostname = ''localhost'', itemPort = 70\<rparr> \<in> set its"
    by (simp add: sampleConfig_def)
  from 1 2 show ?thesis by (simp add: l)
qed

text \<open>
  In the listing of \<open>docs\<close>, which is not the document root, the first entry
  is the subdirectory \<open>-old\<close> and the go-up entry is the second.
\<close>

theorem parent_entry_not_first_counterexample:
  "''/srv/gopher/docs'' \<noteq> documentRoot sampleConfig
   \<and> getDirectoryListing sampleHost sampleConfig ''/srv/gopher/docs'' = Inr docsListing
   \<and> displayString (docsListing ! 0) = ''-old/''
   \<and> displayString (docsListing ! 1) = ''..''"
  by (simp add: listing_docs_eq) (simp add: sampleConfig_def docsListing_def)

text \<open>
  The selector \<open>/\<close> resolves to the document root written with a trailing
  slash, a string other than the configured root.
\<close>

lemma root_selector_resolves_with_slash:
  "resolvePath sampleConfig ''/'' = Inr ''/srv/gopher/''
   \<and> ''/srv/gopher/'' \<noteq> documentRoot sampleConfig"
  by (simp add: resolvePath_def sampleConfig_def path_defs)

text \<open>
  Outside the directories strictly below the root, \<open>getParentSelector\<close> on the
  document root itself returns \<open>/..\<close>.
\<close>

lemma getParentSelector_of_root:
  "getParentSelector sampleHost sampleConfig ''/srv/gopher'' = ''/..''"
  by (simp add: getParentSelector_def sampleHost_def sampleConfig_def path_defs
      backslashesToSlashes_def)

end
